theory Spec2Isabelle
  imports Complex_Main "HOL-Library.Multiset" "HOL-Library.Sublist"
begin

section \<open>Data model (types.ts)\<close>

text \<open>
  TypeScript interfaces are erased at run time: what \<^verbatim>\<open>JSON.parse\<close> hands to the
  application as \<^verbatim>\<open>reportData\<close> is an arbitrary JSON value, so the report payload is
  modelled as a JSON tree. Numbers of a payload are the rationals they denote.
  Timestamps come from \<^verbatim>\<open>Date.now()\<close> and are integers. A string is the list of its
  code units, which the model takes from the 8-bit characters; \<open>length\<close> counts them as
  \<^verbatim>\<open>.length\<close> does. An optional field (\<^verbatim>\<open>isReport?\<close>) is an \<open>option\<close>: \<open>None\<close> stands for
  an absent key and for the value \<^verbatim>\<open>undefined\<close> alike, which
  \<^verbatim>\<open>JSON.stringify\<close> does not tell apart either.
\<close>

datatype json =
    JNull
  | JBool bool
  | JNumber rat
  | JString string
  | JArray "json list"
  | JObject "(string \<times> json) list"

datatype role = Role_user | Role_model

record GroundingUrl =
  g_title :: string
  uri :: string

record ChatMessage =
  msg_id :: string
  role :: role
  msg_text :: string
  isReport :: "bool option"
  reportData :: "json option"
  isLoading :: "bool option"
  groundingUrls :: "GroundingUrl list option"

record User =
  user_id :: string
  name :: string
  email :: string
  avatarUrl :: "string option"

record ChatSession =
  session_id :: string
  userId :: string
  title :: string
  messages :: "ChatMessage list"
  createdAt :: int
  lastModified :: int

section \<open>Persistence (services/storageService.ts)\<close>

text \<open>
  The service keeps every session of every user in one \<^verbatim>\<open>localStorage\<close> item,
  \<^verbatim>\<open>overunder_sessions\<close>, and touches it only through \<^verbatim>\<open>getItem\<close>, a truthiness
  test, \<^verbatim>\<open>JSON.parse\<close> and \<^verbatim>\<open>setItem(JSON.stringify ...)\<close>. The item is therefore
  represented by what those operations make of it:
  \<^item> \<open>NoItem\<close>: \<^verbatim>\<open>getItem\<close> gives \<^verbatim>\<open>null\<close> or the empty string (both are falsy);
  \<^item> \<open>Unparseable\<close>: a non-empty string that \<^verbatim>\<open>JSON.parse\<close> rejects with a
    \<^verbatim>\<open>SyntaxError\<close>;
  \<^item> \<open>Sessions all\<close>: a string that parses to the array \<open>all\<close> of sessions. An item
    that parses to anything else (\<^verbatim>\<open>null\<close>, an object, an array with an element that
    is not a session) is not represented. The string written by
    \<^verbatim>\<open>setItem(JSON.stringify(all))\<close> is taken to be one: the fields of a session are
    strings, integers, booleans and JSON values, which \<^verbatim>\<open>JSON.parse\<close> gives back as
    they were written.
  A function of the service that throws returns \<open>Inl\<close> of the error, and the item stays
  as it was.
\<close>

datatype js_error = SyntaxError | Rejected

datatype sessions_item = NoItem | Unparseable | Sessions "ChatSession list"

text \<open>
  \<^verbatim>\<open>Array.prototype.sort\<close> with a comparator: the result is the stable rearrangement in
  which \<open>a\<close> stays before \<open>b\<close> unless the comparator is positive. Insertion from the
  right computes it.
\<close>

fun js_insert :: "('a \<Rightarrow> 'a \<Rightarrow> int) \<Rightarrow> 'a \<Rightarrow> 'a list \<Rightarrow> 'a list" where
  "js_insert cmp x [] = [x]"
| "js_insert cmp x (y # ys) = (if cmp x y \<le> 0 then x # y # ys else y # js_insert cmp x ys)"

definition js_sort :: "('a \<Rightarrow> 'a \<Rightarrow> int) \<Rightarrow> 'a list \<Rightarrow> 'a list" where
  "js_sort cmp xs = foldr (js_insert cmp) xs []"

text \<open>\<^verbatim>\<open>Array.prototype.findIndex\<close>: the index of the first match, or \<open>-1\<close>.\<close>

fun findIndex :: "('a \<Rightarrow> bool) \<Rightarrow> 'a list \<Rightarrow> int" where
  "findIndex p [] = - 1"
| "findIndex p (x # xs) =
     (if p x then 0 else (let i = findIndex p xs in if i < 0 then - 1 else i + 1))"

text \<open>The comparator of \<^verbatim>\<open>getChatSessions\<close>: \<^verbatim>\<open>(a, b) => b.lastModified - a.lastModified\<close>.\<close>

definition newest_first :: "ChatSession \<Rightarrow> ChatSession \<Rightarrow> int" where
  "newest_first a b = lastModified b - lastModified a"

definition getChatSessions :: "string \<Rightarrow> sessions_item \<Rightarrow> js_error + ChatSession list" where
  "getChatSessions uid stored =
     (case stored of
        NoItem \<Rightarrow> Inr []
      | Unparseable \<Rightarrow> Inl SyntaxError
      | Sessions allSessions \<Rightarrow>
          Inr (js_sort newest_first (filter (\<lambda>s. userId s = uid) allSessions)))"

definition saveChatSession :: "ChatSession \<Rightarrow> sessions_item \<Rightarrow> js_error + sessions_item" where
  "saveChatSession session stored =
     (case (case stored of
              NoItem \<Rightarrow> Inr []
            | Unparseable \<Rightarrow> Inl SyntaxError
            | Sessions parsed \<Rightarrow> Inr parsed) of
        Inl e \<Rightarrow> Inl e
      | Inr allSessions \<Rightarrow>
          (let index = findIndex (\<lambda>s. session_id s = session_id session) allSessions
           in if index \<ge> 0
              then Inr (Sessions (allSessions[nat index := session]))
              else Inr (Sessions (allSessions @ [session]))))"


text \<open>
  \<^verbatim>\<open>createNewSession\<close> reads the clock three times; the readings are its arguments.
  \<^verbatim>\<open>Number.prototype.toString\<close> of an integer is its decimal numeral.
\<close>

fun digits_of :: "nat \<Rightarrow> string" where
  "digits_of n =
     (if n < 10 then [''0123456789'' ! n]
      else digits_of (n div 10) @ [''0123456789'' ! (n mod 10)])"

definition toString :: "int \<Rightarrow> string" where
  "toString i = (if i < 0 then CHR ''-'' # digits_of (nat (- i)) else digits_of (nat i))"


text \<open>The list that \<^verbatim>\<open>saveChatSession\<close> writes back.\<close>

definition upsert :: "ChatSession \<Rightarrow> ChatSession list \<Rightarrow> ChatSession list" where
  "upsert session allSessions =
     (let index = findIndex (\<lambda>s. session_id s = session_id session) allSessions
      in if index \<ge> 0 then allSessions[nat index := session] else allSessions @ [session])"

text \<open>The sessions a store holds, and the stores the service can read.\<close>

definition stored_sessions :: "sessions_item \<Rightarrow> ChatSession list" where
  "stored_sessions stored = (case stored of Sessions allSessions \<Rightarrow> allSessions | _ \<Rightarrow> [])"

definition readable :: "sessions_item \<Rightarrow> bool" where
  "readable stored = (stored \<noteq> Unparseable)"

definition save_then_list :: "ChatSession \<Rightarrow> sessions_item \<Rightarrow> js_error + ChatSession list" where
  "save_then_list session stored =
     (case saveChatSession session stored of
        Inl e \<Rightarrow> Inl e
      | Inr stored' \<Rightarrow> getChatSessions (userId session) stored')"

definition save_twice :: "ChatSession \<Rightarrow> sessions_item \<Rightarrow> js_error + sessions_item" where
  "save_twice session stored =
     (case saveChatSession session stored of
        Inl e \<Rightarrow> Inl e
      | Inr stored' \<Rightarrow> saveChatSession session stored')"

text \<open>Sample data for the concrete instances below.\<close>

definition sample_session :: "string \<Rightarrow> string \<Rightarrow> int \<Rightarrow> ChatSession" where
  "sample_session sid uid t =
     \<lparr> session_id = sid, userId = uid, title = ''New Analysis'', messages = [],
       createdAt = t, lastModified = t \<rparr>"

section \<open>Regular expressions\<close>

text \<open>
  The service and the report component use four regular expressions. One of them,
  \<^verbatim>\<open>/,/g\<close>, only serves to delete every comma. The other three are built
  from literal text, a greedy \<^verbatim>\<open>c*\<close> and \<^verbatim>\<open>c+\<close> over a character class, a lazy \<^verbatim>\<open>c*?\<close>
  and a greedy optional group \<^verbatim>\<open>(...)?\<close>. \<open>rx_match\<close> is the backtracking matcher of
  JavaScript on that fragment: it matches a sequence of items at the start of the
  input, tries the alternatives of each item in the order the language prescribes
  (a greedy item the longer match first, a lazy item the shorter) and returns the
  first success: the text captured by group 1 and the input left after the match.
  The flag of \<open>Lazy\<close> says whether the item is capture group 1.
\<close>

datatype rx =
    Lit string
  | Star "char \<Rightarrow> bool"
  | Plus "char \<Rightarrow> bool"
  | Lazy "char \<Rightarrow> bool" bool
  | Opt "rx list"

fun rx_match :: "rx list \<Rightarrow> string \<Rightarrow> string \<Rightarrow> (string \<times> string) option" where
  "rx_match [] g s = Some (g, s)"
| "rx_match (Lit l # rs) g s =
     (if prefix l s then rx_match rs g (drop (length l) s) else None)"
| "rx_match (Star p # rs) g [] = rx_match rs g []"
| "rx_match (Star p # rs) g (c # cs) =
     (if p c
      then (case rx_match (Star p # rs) g cs of
              Some m \<Rightarrow> Some m
            | None \<Rightarrow> rx_match rs g (c # cs))
      else rx_match rs g (c # cs))"
| "rx_match (Plus p # rs) g [] = None"
| "rx_match (Plus p # rs) g (c # cs) = (if p c then rx_match (Star p # rs) g cs else None)"
| "rx_match (Lazy p cap # rs) g [] = rx_match rs g []"
| "rx_match (Lazy p cap # rs) g (c # cs) =
     (case rx_match rs g (c # cs) of
        Some m \<Rightarrow> Some m
      | None \<Rightarrow>
          if p c then rx_match (Lazy p cap # rs) (if cap then g @ [c] else g) cs else None)"
| "rx_match (Opt grp # rs) g s =
     (case rx_match (grp @ rs) g s of
        Some m \<Rightarrow> Some m
      | None \<Rightarrow> rx_match rs g s)"

text \<open>
  A match as \<^verbatim>\<open>String.prototype.match\<close> reports it for a regular expression without
  the \<^verbatim>\<open>g\<close> flag: the text before the match, the match (index 0), group 1, and the
  text after. The search tries every start position from the left.
\<close>

record rx_found =
  m_before :: string
  m_whole :: string
  m_group1 :: string
  m_after :: string

fun rx_search :: "rx list \<Rightarrow> string \<Rightarrow> string \<Rightarrow> rx_found option" where
  "rx_search rs pre [] =
     (case rx_match rs [] [] of
        Some (g, rest) \<Rightarrow> Some \<lparr> m_before = pre, m_whole = [], m_group1 = g, m_after = rest \<rparr>
      | None \<Rightarrow> None)"
| "rx_search rs pre (c # cs) =
     (case rx_match rs [] (c # cs) of
        Some (g, rest) \<Rightarrow>
          Some \<lparr> m_before = pre, m_whole = take (length (c # cs) - length rest) (c # cs),
                 m_group1 = g, m_after = rest \<rparr>
      | None \<Rightarrow> rx_search rs (pre @ [c]) cs)"

definition js_match :: "rx list \<Rightarrow> string \<Rightarrow> rx_found option" where
  "js_match rs s = rx_search rs [] s"

text \<open>\<^verbatim>\<open>s.replace(re, '')\<close> without the \<^verbatim>\<open>g\<close> flag removes the first match.\<close>

definition js_remove_first :: "rx list \<Rightarrow> string \<Rightarrow> string" where
  "js_remove_first rs s =
     (case js_match rs s of None \<Rightarrow> s | Some m \<Rightarrow> m_before m @ m_after m)"

text \<open>
  The classes. \<^verbatim>\<open>\s\<close> and \<^verbatim>\<open>trim()\<close> use the same set of white space; of it the model
  has the 8-bit part: tab, line feed, vertical tab, form feed, carriage return, space
  and the no-break space.
\<close>

definition is_space :: "char \<Rightarrow> bool" where
  "is_space c =
     (c \<in> set [CHR 0x09, CHR 0x0A, CHR 0x0B, CHR 0x0C, CHR 0x0D, CHR 0x20, CHR 0xA0])"

definition is_digit :: "char \<Rightarrow> bool" where
  "is_digit c = (c \<in> set ''0123456789'')"

definition any_char :: "char \<Rightarrow> bool" where
  "any_char c = True"

definition trim :: "string \<Rightarrow> string" where
  "trim s = rev (dropWhile is_space (rev (dropWhile is_space s)))"

section \<open>The report extractor (services/geminiService.ts)\<close>

definition fence_open :: string where
  "fence_open = ''```json_report''"

definition fence_close :: string where
  "fence_close = ''```''"

text \<open>\<^verbatim>\<open>/```json_report\s*([\s\S]*?)\s*```/\<close>\<close>

definition report_rx :: "rx list" where
  "report_rx = [Lit fence_open, Star is_space, Lazy any_char True, Star is_space, Lit fence_close]"

text \<open>\<^verbatim>\<open>/```json_report[\s\S]*?```/\<close>\<close>

definition block_rx :: "rx list" where
  "block_rx = [Lit fence_open, Lazy any_char False, Lit fence_close]"

definition report_fallback :: string where
  "report_fallback = ''Here is the valuation report based on the latest market data.''"

record extraction =
  cleanText :: string
  extracted :: "json option"

text \<open>
  The extractor is the second half of \<^verbatim>\<open>sendMessageToGemini\<close>, from the call of
  \<^verbatim>\<open>match\<close> to the returned fields \<^verbatim>\<open>text\<close> and \<^verbatim>\<open>reportData\<close>. \<^verbatim>\<open>JSON.parse\<close> belongs to
  the platform and is a parameter: \<open>None\<close> is the exception it throws, which the
  \<^verbatim>\<open>catch\<close> around it swallows. An empty group 1 is falsy, so the parser is not called
  on it.
\<close>

definition extract_report :: "(string \<Rightarrow> json option) \<Rightarrow> string \<Rightarrow> extraction" where
  "extract_report JSON_parse responseText =
     (case js_match report_rx responseText of
        None \<Rightarrow> \<lparr> cleanText = responseText, extracted = None \<rparr>
      | Some jsonMatch \<Rightarrow>
          if m_group1 jsonMatch = [] then \<lparr> cleanText = responseText, extracted = None \<rparr>
          else
            (case JSON_parse (m_group1 jsonMatch) of
               None \<Rightarrow> \<lparr> cleanText = responseText, extracted = None \<rparr>
             | Some parsed \<Rightarrow>
                 (let cleaned = trim (js_remove_first block_rx responseText)
                  in \<lparr> cleanText = (if cleaned = [] then report_fallback else cleaned),
                       extracted = Some parsed \<rparr>)))"

text \<open>
  The first half: the reply of the channel, whose text may be missing or empty, and
  whose grounding chunks are kept when both \<^verbatim>\<open>web.uri\<close> and \<^verbatim>\<open>web.title\<close> are truthy.
  A rejected call rethrows.
\<close>

record chunk =
  web_uri :: "string option"
  web_title :: "string option"

record channel_result =
  result_text :: "string option"
  groundingChunks :: "chunk list option"

record gemini_response =
  response_text :: string
  response_reportData :: "json option"
  response_groundingUrls :: "GroundingUrl list"

definition truthy_string :: "string option \<Rightarrow> bool" where
  "truthy_string s = (case s of None \<Rightarrow> False | Some t \<Rightarrow> t \<noteq> [])"

definition grounding_of :: "chunk list option \<Rightarrow> GroundingUrl list" where
  "grounding_of chunks =
     (case chunks of
        None \<Rightarrow> []
      | Some cs \<Rightarrow>
          map (\<lambda>c. \<lparr> g_title = the (web_title c), uri = the (web_uri c) \<rparr>)
            (filter (\<lambda>c. truthy_string (web_uri c) \<and> truthy_string (web_title c)) cs))"

definition sendMessageToGemini ::
  "(string \<Rightarrow> json option) \<Rightarrow> js_error + channel_result \<Rightarrow> js_error + gemini_response" where
  "sendMessageToGemini JSON_parse outcome =
     (case outcome of
        Inl e \<Rightarrow> Inl e
      | Inr result \<Rightarrow>
          (let responseText =
                 (if truthy_string (result_text result) then the (result_text result)
                  else ''I couldn't generate a response. Please try again.'');
               x = extract_report JSON_parse responseText
           in Inr \<lparr> response_text = cleanText x, response_reportData = extracted x,
                    response_groundingUrls = grounding_of (groundingChunks result) \<rparr>))"

text \<open>
  What the properties of the extractor speak about, in their own words: a response
  \<open>t\<close> contains a report fence when the opening marker occurs in it and the closing
  marker occurs after that. \<open>report_fence t pre body post\<close> names the parts of the first
  fence: \<open>pre\<close> is the text before the first opening marker, \<open>body\<close> the text from there
  to the first closing marker, \<open>post\<close> the text after it. The inner content of the
  fence is \<open>body\<close> without the white space around it.
\<close>

definition has_report_fence :: "string \<Rightarrow> bool" where
  "has_report_fence t = (\<exists>pre body post. t = pre @ fence_open @ body @ fence_close @ post)"

definition report_fence :: "string \<Rightarrow> string \<Rightarrow> string \<Rightarrow> string \<Rightarrow> bool" where
  "report_fence t pre body post =
     (t = pre @ fence_open @ body @ fence_close @ post \<and>
      \<not> sublist fence_open (pre @ butlast fence_open) \<and>
      \<not> sublist fence_close (body @ butlast fence_close))"

definition inner_content :: "string \<Rightarrow> string" where
  "inner_content body = trim body"

text \<open>
  The white space that group 1 of \<open>report_rx\<close> leaves out at the end of a fence body, and
  a stand-in for \<^verbatim>\<open>JSON.parse\<close> in the concrete instances: it knows two JSON texts and
  rejects every other text.
\<close>

definition rstrip :: "string \<Rightarrow> string" where
  "rstrip s = rev (dropWhile is_space (rev s))"

definition sample_parse :: "string \<Rightarrow> json option" where
  "sample_parse s =
     (if s = ''{}'' then Some (JObject []) else if s = ''null'' then Some JNull else None)"

section \<open>Metric values (components/StockReport.tsx)\<close>

text \<open>
  A JavaScript number is \<^verbatim>\<open>NaN\<close> or the rational it denotes; rounding to a double and
  the infinities are left out. A metric value is a string or a number.
\<close>

datatype number = NaN | Finite rat

datatype metric_value = Str string | Num number

text \<open>\<^verbatim>\<open>/-?\d+(\.\d+)?/\<close>\<close>

definition number_rx :: "rx list" where
  "number_rx = [Opt [Lit ''-''], Plus is_digit, Opt [Lit ''.'', Plus is_digit]]"

text \<open>
  \<^verbatim>\<open>parseFloat\<close> on a decimal literal: an optional sign, digits, and an optional fraction;
  \<^verbatim>\<open>NaN\<close> when no digit starts the text. Exponents, leading white space and the word
  \<^verbatim>\<open>Infinity\<close>, which the matches of \<open>number_rx\<close> never contain, are not modelled.
\<close>

definition digit_value :: "char \<Rightarrow> nat" where
  "digit_value c = of_char c - 48"

definition decimal :: "string \<Rightarrow> nat" where
  "decimal ds = foldl (\<lambda>a c. 10 * a + digit_value c) 0 ds"

definition parseFloat :: "string \<Rightarrow> number" where
  "parseFloat s =
     (let negative = (case s of c # _ \<Rightarrow> c = CHR ''-'' | [] \<Rightarrow> False);
          unsigned = (case s of c # r \<Rightarrow> if c = CHR ''-'' \<or> c = CHR ''+'' then r else s | [] \<Rightarrow> s);
          whole = takeWhile is_digit unsigned;
          after = dropWhile is_digit unsigned;
          fraction = (case after of c # r \<Rightarrow> if c = CHR ''.'' then takeWhile is_digit r else []
                      | [] \<Rightarrow> []);
          magnitude = of_nat (decimal whole) + of_nat (decimal fraction) / 10 ^ length fraction
      in if whole = [] \<and> fraction = [] then NaN
         else Finite (if negative then - magnitude else magnitude))"

definition parseValue :: "metric_value \<Rightarrow> number" where
  "parseValue val =
     (case val of
        Num n \<Rightarrow> n
      | Str s \<Rightarrow>
          (case js_match number_rx (filter (\<lambda>c. c \<noteq> CHR '','') s) of
             Some clean \<Rightarrow> parseFloat (m_whole clean)
           | None \<Rightarrow> Finite 0))"

text \<open>
  The first numeric substring of a text, in the words of the property: a numeric string
  is an optional minus sign, one or more digits and optionally a point with one or more
  digits; \<open>numeric_prefix\<close> is the longest one a text starts with, and the first numeric
  substring is the numeric prefix at the leftmost position that has one.
\<close>

definition unsigned_prefix :: "string \<Rightarrow> string option" where
  "unsigned_prefix s =
     (let whole = takeWhile is_digit s;
          after = dropWhile is_digit s;
          fraction = (if prefix ''.'' after then takeWhile is_digit (tl after) else [])
      in if whole = [] then None
         else if fraction = [] then Some whole
         else Some (whole @ ''.'' @ fraction))"

definition numeric_prefix :: "string \<Rightarrow> string option" where
  "numeric_prefix s =
     (if prefix ''-'' s then map_option (\<lambda>n. ''-'' @ n) (unsigned_prefix (tl s))
      else unsigned_prefix s)"

fun first_numeric_substring :: "string \<Rightarrow> string option" where
  "first_numeric_substring [] = None"
| "first_numeric_substring (c # cs) =
     (case numeric_prefix (c # cs) of
        Some n \<Rightarrow> Some n
      | None \<Rightarrow> first_numeric_substring cs)"

section \<open>The application (App.tsx)\<close>

text \<open>
  The state of the component that the handlers below read and write: five of its state
  hooks and the stored item. The hooks that only drive the presentation
  (\<^verbatim>\<open>isLoginLoading\<close>, \<^verbatim>\<open>sidebarOpen\<close>) are left out. State updates are applied in the
  order in which the handler issues them. A handler ends by returning or by an
  exception that nothing catches; both leave a state behind.
\<close>

record app_state =
  user :: "User option"
  sessions :: "ChatSession list"
  currentSessionId :: "string option"
  inputText :: string
  isProcessing :: bool
  localStorage :: sessions_item

datatype 'a outcome = Returned 'a | Threw js_error 'a

definition INITIAL_WELCOME_MSG :: ChatMessage where
  "INITIAL_WELCOME_MSG =
     \<lparr> msg_id = ''welcome-msg'', role = Role_model,
       msg_text = ''Hello! I'm OverUnder. I can help you analyze whether a stock is overvalued or undervalued using real-time data and key financial ratios (P/E, PEG, P/B, etc.). Which stock would you like to analyze today?'',
       isReport = None, reportData = None, isLoading = None, groundingUrls = None \<rparr>"

definition apology :: string where
  "apology = ''I encountered an error. Please try again.''"

text \<open>\<^verbatim>\<open>sessions.find(s => s.id === currentSessionId)\<close>\<close>

definition currentSession :: "app_state \<Rightarrow> ChatSession option" where
  "currentSession st =
     (case currentSessionId st of
        None \<Rightarrow> None
      | Some cid \<Rightarrow> find (\<lambda>s. session_id s = cid) (sessions st))"



text \<open>
  \<^verbatim>\<open>handleSendMessage\<close> runs in two parts, before and after the \<^verbatim>\<open>await\<close>. The first part
  leaves the values its closure keeps for the second.
\<close>

record exchange =
  ex_currentSession :: ChatSession
  ex_userMessage :: ChatMessage
  ex_updatedMessages :: "ChatMessage list"
  ex_updatedSession :: ChatSession

datatype send_result = Ignored | Aborted js_error app_state | Awaiting app_state exchange

text \<open>\<^verbatim>\<open>prev.map(s => s.id === currentSession.id ? replacement : s)\<close>\<close>

definition replace_session :: "ChatSession \<Rightarrow> ChatSession \<Rightarrow> ChatSession list \<Rightarrow> ChatSession list" where
  "replace_session cur replacement prev =
     map (\<lambda>s. if session_id s = session_id cur then replacement else s) prev"

definition handleSendMessage_send :: "int \<Rightarrow> int \<Rightarrow> int \<Rightarrow> app_state \<Rightarrow> send_result" where
  "handleSendMessage_send now1 now2 now3 st =
     (case currentSession st of
        None \<Rightarrow> Ignored
      | Some cur \<Rightarrow>
          if trim (inputText st) = [] \<or> isProcessing st \<or> user st = None then Ignored
          else
            (let userMessage =
                   \<lparr> msg_id = toString now1, role = Role_user, msg_text = inputText st,
                     isReport = None, reportData = None, isLoading = None,
                     groundingUrls = None \<rparr>;
                 updatedMessages = messages cur @ [userMessage];
                 updatedTitle =
                   (if length (messages cur) \<le> 1
                    then (if length (inputText st) > 30
                          then take 30 (inputText st) @ ''...'' else inputText st)
                    else title cur);
                 updatedSession =
                   cur\<lparr> messages := updatedMessages, title := updatedTitle,
                        lastModified := now2 \<rparr>;
                 st1 = st\<lparr> sessions := replace_session cur updatedSession (sessions st) \<rparr>
             in case saveChatSession updatedSession (localStorage st1) of
                  Inl e \<Rightarrow> Aborted e st1
                | Inr stored' \<Rightarrow>
                    (let loading =
                           \<lparr> msg_id = ''loading-'' @ toString now3, role = Role_model,
                             msg_text = [], isReport = None, reportData = None,
                             isLoading = Some True, groundingUrls = None \<rparr>;
                         sessionWithLoading =
                           updatedSession\<lparr> messages := updatedMessages @ [loading] \<rparr>
                     in Awaiting
                          (st1\<lparr> localStorage := stored', inputText := [], isProcessing := True,
                                sessions := replace_session cur sessionWithLoading (sessions st1) \<rparr>)
                          \<lparr> ex_currentSession = cur, ex_userMessage = userMessage,
                            ex_updatedMessages = updatedMessages,
                            ex_updatedSession = updatedSession \<rparr>)))"

text \<open>The \<^verbatim>\<open>catch\<close> clause and \<^verbatim>\<open>finally\<close>.\<close>

definition handleSendMessage_rejected ::
  "int \<Rightarrow> int \<Rightarrow> exchange \<Rightarrow> app_state \<Rightarrow> app_state outcome" where
  "handleSendMessage_rejected now1 now2 ex st =
     (let errorMessage =
            \<lparr> msg_id = toString now1, role = Role_model, msg_text = apology,
              isReport = None, reportData = None, isLoading = None, groundingUrls = None \<rparr>;
          errorSession =
            (ex_updatedSession ex)\<lparr> messages := ex_updatedMessages ex @ [errorMessage],
                                    lastModified := now2 \<rparr>;
          st1 = st\<lparr> sessions := replace_session (ex_currentSession ex) errorSession (sessions st) \<rparr>
      in case saveChatSession errorSession (localStorage st1) of
           Inl e \<Rightarrow> Threw e (st1\<lparr> isProcessing := False \<rparr>)
         | Inr stored' \<Rightarrow> Returned (st1\<lparr> localStorage := stored', isProcessing := False \<rparr>))"

text \<open>\<^verbatim>\<open>!!response.reportData\<close>\<close>

definition truthy :: "json option \<Rightarrow> bool" where
  "truthy v =
     (case v of
        None \<Rightarrow> False
      | Some JNull \<Rightarrow> False
      | Some (JBool b) \<Rightarrow> b
      | Some (JNumber n) \<Rightarrow> n \<noteq> 0
      | Some (JString s) \<Rightarrow> s \<noteq> []
      | Some _ \<Rightarrow> True)"

text \<open>
  The rest of the \<^verbatim>\<open>try\<close> block after the \<^verbatim>\<open>await\<close>. The save stands inside the block, so
  an exception of it runs the \<^verbatim>\<open>catch\<close> clause, with two more readings of the clock.
\<close>

definition handleSendMessage_fulfilled ::
  "int \<Rightarrow> int \<Rightarrow> int \<Rightarrow> int \<Rightarrow> gemini_response \<Rightarrow> exchange \<Rightarrow> app_state \<Rightarrow> app_state outcome" where
  "handleSendMessage_fulfilled now1 now2 now3 now4 response ex st =
     (let modelMessage =
            \<lparr> msg_id = toString (now1 + 1), role = Role_model,
              msg_text = response_text response,
              isReport = Some (truthy (response_reportData response)),
              reportData = response_reportData response, isLoading = None,
              groundingUrls = Some (response_groundingUrls response) \<rparr>;
          finalMessages = ex_updatedMessages ex @ [modelMessage];
          finalSession =
            (ex_updatedSession ex)\<lparr> messages := finalMessages, lastModified := now2 \<rparr>;
          otherSessions =
            filter (\<lambda>s. session_id s \<noteq> session_id (ex_currentSession ex)) (sessions st);
          st1 = st\<lparr> sessions := finalSession # otherSessions \<rparr>
      in case saveChatSession finalSession (localStorage st1) of
           Inl e \<Rightarrow> handleSendMessage_rejected now3 now4 ex st1
         | Inr stored' \<Rightarrow> Returned (st1\<lparr> localStorage := stored', isProcessing := False \<rparr>))"

text \<open>
  One whole exchange, with no other event between its two parts. The channel is the
  external collaborator: it answers the utterance or rejects. \<open>now k\<close> is the \<open>k\<close>-th
  reading of the clock.
\<close>

definition handleSendMessage ::
  "(string \<Rightarrow> json option) \<Rightarrow> (string \<Rightarrow> js_error + channel_result) \<Rightarrow> (nat \<Rightarrow> int) \<Rightarrow>
     app_state \<Rightarrow> app_state outcome" where
  "handleSendMessage JSON_parse channel now st =
     (case handleSendMessage_send (now 0) (now 1) (now 2) st of
        Ignored \<Rightarrow> Returned st
      | Aborted e st1 \<Rightarrow> Threw e st1
      | Awaiting st1 ex \<Rightarrow>
          (case sendMessageToGemini JSON_parse (channel (msg_text (ex_userMessage ex))) of
             Inl e \<Rightarrow> handleSendMessage_rejected (now 3) (now 4) ex st1
           | Inr response \<Rightarrow>
               handleSendMessage_fulfilled (now 3) (now 4) (now 5) (now 6) response ex st1))"

text \<open>
  Sample states for the concrete instances: a logged-in user whose sessions, in memory
  and in the store alike, are the given ones, with the first selected.
\<close>

definition demo_user :: User where
  "demo_user =
     \<lparr> user_id = ''user_12345'', name = ''Demo User'', email = ''demo.user@gmail.com'',
       avatarUrl = None \<rparr>"

definition welcome_session :: "string \<Rightarrow> int \<Rightarrow> ChatSession" where
  "welcome_session sid t =
     \<lparr> session_id = sid, userId = ''user_12345'', title = ''New Analysis'',
       messages = [INITIAL_WELCOME_MSG], createdAt = t, lastModified = t \<rparr>"

definition idle_state :: "ChatSession list \<Rightarrow> string \<Rightarrow> app_state" where
  "idle_state ss typed =
     \<lparr> user = Some demo_user, sessions = ss,
       currentSessionId = (case ss of [] \<Rightarrow> None | s # _ \<Rightarrow> Some (session_id s)),
       inputText = typed, isProcessing = False, localStorage = Sessions ss \<rparr>"

text \<open>The title and the state a send leaves behind, when it gets as far as the channel.\<close>

definition sent_title :: "send_result \<Rightarrow> string option" where
  "sent_title r =
     (case r of Awaiting st ex \<Rightarrow> Some (title (ex_updatedSession ex)) | _ \<Rightarrow> None)"

definition final_state :: "app_state outcome \<Rightarrow> app_state" where
  "final_state r = (case r of Returned st \<Rightarrow> st | Threw e st \<Rightarrow> st)"

section \<open>Facts about the persistence service\<close>

lemma js_insert_insort:
  "js_insert newest_first x ys = insort_key (\<lambda>s. - lastModified s) x ys"
  by (induction ys) (auto simp: newest_first_def)

lemma js_sort_sort_key:
  "js_sort newest_first xs = sort_key (\<lambda>s. - lastModified s) xs"
  by (induction xs) (auto simp: js_sort_def js_insert_insort)

lemma js_sort_mset: "mset (js_sort newest_first xs) = mset xs"
  by (simp add: js_sort_sort_key)

lemma js_sort_set: "set (js_sort newest_first xs) = set xs"
  by (simp add: js_sort_sort_key)

lemma js_sort_descending:
  "sorted_wrt (\<lambda>a b. lastModified b \<le> lastModified a) (js_sort newest_first xs)"
proof -
  have "sorted (map (\<lambda>s. - lastModified s) (sort_key (\<lambda>s. - lastModified s) xs))"
    by (rule sorted_sort_key)
  then show ?thesis
    by (simp add: js_sort_sort_key sorted_map)
qed

lemma findIndex_bounds: "findIndex p xs < int (length xs) \<and> - 1 \<le> findIndex p xs"
  by (induction xs) (auto simp: Let_def)

lemma findIndex_none: "findIndex p xs < 0 \<longleftrightarrow> (\<forall>x \<in> set xs. \<not> p x)"
  using findIndex_bounds [of p] by (induction xs) (auto simp: Let_def)

lemma findIndex_hit: "0 \<le> findIndex p xs \<Longrightarrow> p (xs ! nat (findIndex p xs))"
proof (induction xs)
  case Nil
  then show ?case by simp
next
  case (Cons x xs)
  show ?case
  proof (cases "p x")
    case True
    then show ?thesis by simp
  next
    case False
    with Cons.prems have nonneg: "0 \<le> findIndex p xs"
      by (auto simp: Let_def split: if_splits)
    with Cons.IH have "p (xs ! nat (findIndex p xs))" by simp
    with False nonneg show ?thesis
      by (simp add: Let_def nat_add_distrib)
  qed
qed

lemma saveChatSession_readable:
  "readable stored \<Longrightarrow>
     saveChatSession session stored = Inr (Sessions (upsert session (stored_sessions stored)))"
  by (cases stored) (simp_all add: readable_def saveChatSession_def upsert_def stored_sessions_def Let_def)

lemma saveChatSession_unparseable: "saveChatSession session Unparseable = Inl SyntaxError"
  by (simp add: saveChatSession_def)

lemma upsert_member: "session \<in> set (upsert session allSessions)"
proof (cases "0 \<le> findIndex (\<lambda>s. session_id s = session_id session) allSessions")
  case True
  with findIndex_bounds [of "\<lambda>s. session_id s = session_id session" allSessions]
  have "nat (findIndex (\<lambda>s. session_id s = session_id session) allSessions) < length allSessions"
    by simp
  with True show ?thesis
    by (simp add: upsert_def set_update_memI)
next
  case False
  then show ?thesis by (simp add: upsert_def)
qed

lemma upsert_length:
  "length (upsert session allSessions) =
     (if \<exists>s \<in> set allSessions. session_id s = session_id session
      then length allSessions else Suc (length allSessions))"
  using findIndex_none [of "\<lambda>s. session_id s = session_id session" allSessions]
  by (auto simp: upsert_def Let_def)

lemma upsert_Nil: "upsert session [] = [session]"
  by (simp add: upsert_def)

lemma upsert_Cons:
  "upsert session (x # xs) =
     (if session_id x = session_id session then session # xs else x # upsert session xs)"
proof (cases "session_id x = session_id session")
  case True
  then show ?thesis by (simp add: upsert_def)
next
  case False
  show ?thesis
  proof (cases "findIndex (\<lambda>s. session_id s = session_id session) xs < 0")
    case True
    with False show ?thesis by (simp add: upsert_def Let_def)
  next
    case nonneg: False
    then have "nat (findIndex (\<lambda>s. session_id s = session_id session) xs + 1) =
        Suc (nat (findIndex (\<lambda>s. session_id s = session_id session) xs))"
      by simp
    with False nonneg show ?thesis by (simp add: upsert_def Let_def)
  qed
qed

lemma upsert_idem: "upsert session (upsert session allSessions) = upsert session allSessions"
  by (induction allSessions) (simp_all add: upsert_Nil upsert_Cons)

lemma upsert_ids:
  "set (map session_id (upsert session allSessions)) =
     insert (session_id session) (set (map session_id allSessions))"
  by (induction allSessions) (auto simp: upsert_Nil upsert_Cons)

lemma upsert_distinct:
  "distinct (map session_id allSessions) \<Longrightarrow> distinct (map session_id (upsert session allSessions))"
proof (induction allSessions)
  case Nil
  then show ?case by (simp add: upsert_Nil)
next
  case (Cons x xs)
  show ?case
  proof (cases "session_id x = session_id session")
    case True
    with Cons.prems show ?thesis by (simp add: upsert_Cons)
  next
    case False
    from Cons have "distinct (map session_id (upsert session xs))" by simp
    moreover from Cons.prems False
    have "session_id x \<notin> set (map session_id (upsert session xs))"
      unfolding upsert_ids by auto
    ultimately show ?thesis using False by (simp add: upsert_Cons)
  qed
qed

lemma upsert_single_record:
  "distinct (map session_id allSessions) \<Longrightarrow>
     filter (\<lambda>s. session_id s = session_id session) (upsert session allSessions) = [session]"
proof (induction allSessions)
  case Nil
  then show ?case by (simp add: upsert_Nil)
next
  case (Cons x xs)
  show ?case
  proof (cases "session_id x = session_id session")
    case True
    with Cons.prems have "session_id session \<notin> session_id ` set xs"
      by simp
    then have "\<forall>s \<in> set xs. session_id s \<noteq> session_id session"
      by (metis imageI)
    then have "filter (\<lambda>s. session_id s = session_id session) xs = []"
      by (simp add: filter_empty_conv)
    with True show ?thesis by (simp add: upsert_Cons)
  next
    case False
    with Cons show ?thesis by (simp add: upsert_Cons)
  qed
qed

lemma deleteChatSession_distinct:
  "distinct (map session_id allSessions) \<Longrightarrow>
     distinct (map session_id (filter (\<lambda>s. session_id s \<noteq> sessionId) allSessions))"
  by (simp add: distinct_map_filter)

section \<open>Listing, saving and saving again\<close>

text \<open>
  C3, as the code has it. \<^verbatim>\<open>getChatSessions\<close> returns the empty sequence for an absent
  (or empty) item; for an item that parses it returns exactly the sessions whose
  \<open>userId\<close> is the argument, most recently modified first; for an item that does not
  parse it does not return: the \<^verbatim>\<open>SyntaxError\<close> of \<^verbatim>\<open>JSON.parse\<close> reaches the caller.
\<close>

theorem getChatSessions_filtered_newest_first:
  "getChatSessions uid NoItem = Inr [] \<and>
   getChatSessions uid Unparseable = Inl SyntaxError \<and>
   (\<exists>ys. getChatSessions uid (Sessions allSessions) = Inr ys \<and>
      mset ys = mset (filter (\<lambda>s. userId s = uid) allSessions) \<and>
      sorted_wrt (\<lambda>a b. lastModified b \<le> lastModified a) ys)"
  by (simp add: getChatSessions_def js_sort_mset js_sort_descending)

theorem getChatSessions_filtered_newest_first_witness:
  "getChatSessions ''u1''
     (Sessions [sample_session ''a'' ''u1'' 5, sample_session ''b'' ''u2'' 9,
                sample_session ''c'' ''u1'' 7]) =
   Inr [sample_session ''c'' ''u1'' 7, sample_session ''a'' ''u1'' 5]"
  using getChatSessions_filtered_newest_first
    [of "''u1''" "[sample_session ''a'' ''u1'' 5, sample_session ''b'' ''u2'' 9,
                sample_session ''c'' ''u1'' 7]"]
  by (simp add: getChatSessions_def js_sort_def newest_first_def sample_session_def)

text \<open>
  The claim C3 as stated fails on an item that does not parse: nothing is returned, the
  exception escapes.
\<close>

theorem getChatSessions_corrupt_store_throws:
  "getChatSessions ''user_12345'' Unparseable = Inl SyntaxError \<and>
   getChatSessions ''user_12345'' Unparseable \<noteq> Inr []"
  by (simp add: getChatSessions_def)

text \<open>
  C6, as the code has it. On every store whose item is absent (or the empty string) or
  parses to an array of sessions, \<^verbatim>\<open>saveChatSession(S)\<close> followed by
  \<^verbatim>\<open>getChatSessions(S.userId)\<close> returns a list that contains \<open>S\<close>, is ordered by
  \<open>lastModified\<close> descending, and consists of exactly the sessions of that user in the
  written store.
\<close>

theorem save_then_list_contains_saved:
  assumes "readable stored"
  shows "\<exists>ys. save_then_list session stored = Inr ys \<and> session \<in> set ys \<and>
           sorted_wrt (\<lambda>a b. lastModified b \<le> lastModified a) ys \<and>
           mset ys = mset (filter (\<lambda>s. userId s = userId session)
                             (upsert session (stored_sessions stored)))"
proof -
  let ?written = "upsert session (stored_sessions stored)"
  let ?ys = "js_sort newest_first (filter (\<lambda>s. userId s = userId session) ?written)"
  from assms have "save_then_list session stored = Inr ?ys"
    by (simp add: save_then_list_def saveChatSession_readable getChatSessions_def)
  moreover have "session \<in> set ?ys"
    by (simp add: js_sort_set upsert_member)
  moreover have "sorted_wrt (\<lambda>a b. lastModified b \<le> lastModified a) ?ys"
    by (rule js_sort_descending)
  moreover have "mset ?ys = mset (filter (\<lambda>s. userId s = userId session) ?written)"
    by (rule js_sort_mset)
  ultimately show ?thesis by blast
qed

theorem save_then_list_contains_saved_witness:
  "readable (Sessions [sample_session ''a'' ''u1'' 5, sample_session ''b'' ''u1'' 9]) \<and>
   save_then_list (sample_session ''c'' ''u1'' 7)
     (Sessions [sample_session ''a'' ''u1'' 5, sample_session ''b'' ''u1'' 9]) =
   Inr [sample_session ''b'' ''u1'' 9, sample_session ''c'' ''u1'' 7,
        sample_session ''a'' ''u1'' 5]"
proof -
  have r: "readable (Sessions [sample_session ''a'' ''u1'' 5, sample_session ''b'' ''u1'' 9])"
    by (simp add: readable_def)
  show ?thesis
    using r save_then_list_contains_saved [OF r, of "sample_session ''c'' ''u1'' 7"]
    by (simp add: save_then_list_def saveChatSession_def getChatSessions_def js_sort_def
        newest_first_def sample_session_def Let_def)
qed

text \<open>
  The claim C6 as stated ranges over every store state; on an item that does not parse
  \<^verbatim>\<open>saveChatSession\<close> throws and nothing is listed.
\<close>

theorem save_then_list_corrupt_store_throws:
  "save_then_list (sample_session ''a'' ''u1'' 5) Unparseable = Inl SyntaxError"
  by (simp add: save_then_list_def saveChatSession_def)

text \<open>
  C7, as the code has it. On every store whose item is absent (or the empty string) or
  parses to an array of sessions with pairwise distinct ids, saving \<open>S\<close> twice leaves
  the store as saving it once does, with exactly one record of id \<open>S.id\<close>, and that
  record is \<open>S\<close>.
\<close>

theorem save_twice_one_record:
  assumes "readable stored" and "distinct (map session_id (stored_sessions stored))"
  shows "\<exists>written. save_twice session stored = Inr (Sessions written) \<and>
           saveChatSession session stored = Inr (Sessions written) \<and>
           filter (\<lambda>s. session_id s = session_id session) written = [session]"
proof -
  let ?written = "upsert session (stored_sessions stored)"
  have once: "saveChatSession session stored = Inr (Sessions ?written)"
    using assms(1) by (rule saveChatSession_readable)
  have "saveChatSession session (Sessions ?written) = Inr (Sessions (upsert session ?written))"
    by (simp add: saveChatSession_readable readable_def stored_sessions_def)
  with once have "save_twice session stored = Inr (Sessions ?written)"
    by (simp add: save_twice_def upsert_idem)
  moreover have "filter (\<lambda>s. session_id s = session_id session) ?written = [session]"
    using assms(2) by (rule upsert_single_record)
  ultimately show ?thesis using once by blast
qed

theorem save_twice_one_record_witness:
  "readable (Sessions [sample_session ''a'' ''u1'' 5, sample_session ''b'' ''u1'' 9]) \<and>
   distinct (map session_id
     (stored_sessions (Sessions [sample_session ''a'' ''u1'' 5, sample_session ''b'' ''u1'' 9]))) \<and>
   save_twice (sample_session ''a'' ''u1'' 12)
     (Sessions [sample_session ''a'' ''u1'' 5, sample_session ''b'' ''u1'' 9]) =
   Inr (Sessions [sample_session ''a'' ''u1'' 12, sample_session ''b'' ''u1'' 9])"
proof -
  have r: "readable (Sessions [sample_session ''a'' ''u1'' 5, sample_session ''b'' ''u1'' 9])"
    by (simp add: readable_def)
  have d: "distinct (map session_id
     (stored_sessions (Sessions [sample_session ''a'' ''u1'' 5, sample_session ''b'' ''u1'' 9])))"
    by (simp add: stored_sessions_def sample_session_def)
  show ?thesis
    using r d save_twice_one_record [OF r d, of "sample_session ''a'' ''u1'' 12"]
    by (simp add: save_twice_def saveChatSession_def sample_session_def Let_def)
qed

text \<open>
  The claim C7 as stated ranges over every store state. On an item that does not parse
  the first save throws; on a parseable item that already holds two records of the id,
  only the first is replaced and two records of that id remain.
\<close>

theorem save_twice_every_store_fails:
  "save_twice (sample_session ''a'' ''u1'' 12) Unparseable = Inl SyntaxError \<and>
   save_twice (sample_session ''a'' ''u1'' 12)
     (Sessions [sample_session ''a'' ''u1'' 5, sample_session ''a'' ''u1'' 9]) =
   Inr (Sessions [sample_session ''a'' ''u1'' 12, sample_session ''a'' ''u1'' 9])"
  by (simp add: save_twice_def saveChatSession_def sample_session_def Let_def)

section \<open>Facts about the application\<close>

lemma find_upsert:
  "find (\<lambda>x. session_id x = session_id session) (upsert session allSessions) = Some session"
  by (induction allSessions) (simp_all add: upsert_Nil upsert_Cons)

lemma find_replace_session:
  assumes "find (\<lambda>s. session_id s = cid) prev = Some cur"
    and "session_id replacement = session_id cur"
  shows "find (\<lambda>s. session_id s = cid) (replace_session cur replacement prev) = Some replacement"
proof -
  from assms(1) have cid: "session_id cur = cid"
    by (auto simp: find_Some_iff)
  from assms(1) show ?thesis
    using assms(2) unfolding cid [symmetric]
    by (induction prev) (auto simp: replace_session_def split: if_splits)
qed

lemma currentSession_find:
  "currentSession st = Some cur \<Longrightarrow>
     currentSessionId st = Some (session_id cur) \<and>
     find (\<lambda>s. session_id s = session_id cur) (sessions st) = Some cur"
  by (auto simp: currentSession_def find_Some_iff split: option.splits)

lemma stored_after_save:
  "saveChatSession session stored = Inr stored' \<Longrightarrow>
     stored' = Sessions (upsert session (stored_sessions stored)) \<and> readable stored"
  by (cases stored) (auto simp: saveChatSession_def upsert_def stored_sessions_def readable_def Let_def)

text \<open>What the first part of \<^verbatim>\<open>handleSendMessage\<close> leaves when it reaches the channel.\<close>

lemma handleSendMessage_send_Awaiting:
  assumes "handleSendMessage_send now1 now2 now3 st = Awaiting st1 ex"
  shows "\<exists>cur userMessage updatedSession loading.
     currentSession st = Some cur \<and> trim (inputText st) \<noteq> [] \<and> \<not> isProcessing st \<and>
     userMessage = \<lparr> msg_id = toString now1, role = Role_user, msg_text = inputText st,
                     isReport = None, reportData = None, isLoading = None,
                     groundingUrls = None \<rparr> \<and>
     updatedSession = cur\<lparr> messages := messages cur @ [userMessage],
        title := (if length (messages cur) \<le> 1
                    then (if length (inputText st) > 30
                          then take 30 (inputText st) @ ''...'' else inputText st)
                    else title cur),
        lastModified := now2 \<rparr> \<and>
     ex = \<lparr> ex_currentSession = cur, ex_userMessage = userMessage,
            ex_updatedMessages = messages cur @ [userMessage],
            ex_updatedSession = updatedSession \<rparr> \<and>
     loading = \<lparr> msg_id = ''loading-'' @ toString now3, role = Role_model,
                             msg_text = [], isReport = None, reportData = None,
                             isLoading = Some True, groundingUrls = None \<rparr> \<and>
     st1 = st\<lparr> localStorage := Sessions (upsert updatedSession (stored_sessions (localStorage st))),
               inputText := [], isProcessing := True,
               sessions := replace_session cur
                  (updatedSession\<lparr> messages := messages cur @ [userMessage, loading] \<rparr>)
                  (replace_session cur updatedSession (sessions st)) \<rparr>"
  using assms
  by (auto simp: handleSendMessage_send_def Let_def
      split: option.splits if_splits sum.splits dest!: stored_after_save)

lemma replace_session_twice:
  "session_id a = session_id cur \<Longrightarrow>
     replace_session cur b (replace_session cur a prev) = replace_session cur b prev"
  by (induction prev) (auto simp: replace_session_def)

section \<open>The title of a session\<close>

text \<open>
  C4, as the code has it. When \<^verbatim>\<open>handleSendMessage\<close> appends the user's message to the
  current session, the session shown and the session stored get the same title: if the
  session had at most one message before, the typed text when it has at most 30
  characters, else its first 30 characters followed by \<open>...\<close>; if the session had two
  or more messages before, the title it had.
\<close>

theorem title_from_first_user_message:
  assumes "handleSendMessage_send now1 now2 now3 st = Awaiting st1 ex"
  shows "\<exists>cur shown.
     currentSession st = Some cur \<and> currentSession st1 = Some shown \<and>
     find (\<lambda>x. session_id x = session_id cur) (stored_sessions (localStorage st1)) =
       Some (ex_updatedSession ex) \<and>
     title shown = title (ex_updatedSession ex) \<and>
     title (ex_updatedSession ex) =
       (if length (messages cur) \<le> 1
        then (if length (inputText st) \<le> 30 then inputText st
              else take 30 (inputText st) @ ''...'')
        else title cur)"
proof -
  from handleSendMessage_send_Awaiting [OF assms]
  obtain cur userMessage updatedSession loading where
    cur: "currentSession st = Some cur" and
    upd: "updatedSession = cur\<lparr> messages := messages cur @ [userMessage],
        title := (if length (messages cur) \<le> 1
                    then (if length (inputText st) > 30
                          then take 30 (inputText st) @ ''...'' else inputText st)
                    else title cur),
        lastModified := now2 \<rparr>" and
    ex: "ex = \<lparr> ex_currentSession = cur, ex_userMessage = userMessage,
            ex_updatedMessages = messages cur @ [userMessage],
            ex_updatedSession = updatedSession \<rparr>" and
    st1: "st1 = st\<lparr> localStorage := Sessions (upsert updatedSession (stored_sessions (localStorage st))),
               inputText := [], isProcessing := True,
               sessions := replace_session cur
                  (updatedSession\<lparr> messages := messages cur @ [userMessage, loading] \<rparr>)
                  (replace_session cur updatedSession (sessions st)) \<rparr>"
    by blast
  let ?shown = "updatedSession\<lparr> messages := messages cur @ [userMessage, loading] \<rparr>"
  have same_id: "session_id updatedSession = session_id cur"
    by (simp add: upd)
  from currentSession_find [OF cur]
  have cid: "currentSessionId st = Some (session_id cur)"
    and found: "find (\<lambda>s. session_id s = session_id cur) (sessions st) = Some cur"
    by simp_all
  have "find (\<lambda>s. session_id s = session_id cur) (replace_session cur ?shown (sessions st)) =
      Some ?shown"
    using found by (rule find_replace_session) (simp add: upd)
  then have shown: "currentSession st1 = Some ?shown"
    by (simp add: st1 currentSession_def cid replace_session_twice same_id)
  have stored: "find (\<lambda>x. session_id x = session_id cur) (stored_sessions (localStorage st1)) =
      Some (ex_updatedSession ex)"
    using find_upsert [of updatedSession "stored_sessions (localStorage st)"]
    by (simp add: st1 ex stored_sessions_def same_id)
  have "title (ex_updatedSession ex) =
       (if length (messages cur) \<le> 1
        then (if length (inputText st) \<le> 30 then inputText st
              else take 30 (inputText st) @ ''...'')
        else title cur)"
    by (simp add: ex upd)
  moreover have "title ?shown = title (ex_updatedSession ex)"
    by (simp add: ex)
  ultimately show ?thesis
    using cur shown stored by blast
qed

text \<open>
  The instance of the example: the first 30 characters of the text end with the space
  after \<open>about\<close>, and the title keeps it.
\<close>

theorem title_from_first_user_message_witness:
  "sent_title (handleSendMessage_send 1 2 3
     (idle_state [welcome_session ''1700000000000'' 5]
        ''Should I buy NVDA? What about its PEG ratio and growth outlook'')) =
   Some ''Should I buy NVDA? What about ...''"
proof -
  let ?st = "idle_state [welcome_session ''1700000000000'' 5]
        ''Should I buy NVDA? What about its PEG ratio and growth outlook''"
  have "\<exists>st1 ex. handleSendMessage_send 1 2 3 ?st = Awaiting st1 ex"
    by (simp add: handleSendMessage_send_def idle_state_def welcome_session_def
        currentSession_def trim_def is_space_def demo_user_def saveChatSession_def Let_def)
  then obtain st1 ex where sent: "handleSendMessage_send 1 2 3 ?st = Awaiting st1 ex"
    by blast
  have cur: "currentSession ?st = Some (welcome_session ''1700000000000'' 5)"
    by (simp add: idle_state_def currentSession_def welcome_session_def)
  from title_from_first_user_message [OF sent] cur
  have "title (ex_updatedSession ex) = ''Should I buy NVDA? What about ...''"
    by (auto simp: idle_state_def welcome_session_def)
  with sent show ?thesis
    by (simp add: sent_title_def)
qed

text \<open>
  The claim C4 as stated gives the title of the example without that space, which is 29
  characters and the ellipsis; the code does not produce it.
\<close>

theorem title_example_keeps_thirtieth_character:
  "sent_title (handleSendMessage_send 1 2 3
     (idle_state [welcome_session ''1700000000000'' 5]
        ''Should I buy NVDA? What about its PEG ratio and growth outlook'')) \<noteq>
   Some ''Should I buy NVDA? What about...''"
  by (simp add: sent_title_def handleSendMessage_send_def idle_state_def welcome_session_def
        currentSession_def trim_def is_space_def demo_user_def saveChatSession_def Let_def)

lemma handleSendMessage_rejected_readable:
  assumes "readable (localStorage st)"
  shows "handleSendMessage_rejected now1 now2 ex st =
     Returned (st\<lparr> sessions := replace_session (ex_currentSession ex)
                      ((ex_updatedSession ex)\<lparr> messages := ex_updatedMessages ex @
                           [\<lparr> msg_id = toString now1, role = Role_model, msg_text = apology,
                              isReport = None, reportData = None, isLoading = None,
                              groundingUrls = None \<rparr>],
                         lastModified := now2 \<rparr>) (sessions st),
                   localStorage := Sessions (upsert
                      ((ex_updatedSession ex)\<lparr> messages := ex_updatedMessages ex @
                           [\<lparr> msg_id = toString now1, role = Role_model, msg_text = apology,
                              isReport = None, reportData = None, isLoading = None,
                              groundingUrls = None \<rparr>],
                         lastModified := now2 \<rparr>) (stored_sessions (localStorage st))),
                   isProcessing := False \<rparr>)"
  using assms
  by (simp add: handleSendMessage_rejected_def Let_def saveChatSession_readable)

section \<open>A rejected exchange\<close>

text \<open>
  C5. Take an exchange that gets as far as the channel (the first part of
  \<^verbatim>\<open>handleSendMessage\<close> passes its guard and persists the user's message) in a session
  whose messages hold no loading placeholder, and let the channel reject. Then the
  handler returns; the current session consists of its former messages, the user's
  message and exactly one more message, of role \<open>model\<close>, whose text is the apology;
  none of its messages has \<open>isLoading\<close> set; the same session is the record of its id
  in the store; and \<open>isProcessing\<close> is off again.
\<close>

theorem rejected_exchange_ends_with_apology:
  assumes sent: "handleSendMessage_send (now 0) (now 1) (now 2) st = Awaiting st1 ex"
    and rejects: "channel (inputText st) = Inl e"
    and current: "currentSession st = Some cur"
    and clean: "\<forall>m \<in> set (messages cur). isLoading m \<noteq> Some True"
  shows "\<exists>st2 shown userMessage errorMessage.
     handleSendMessage JSON_parse channel now st = Returned st2 \<and>
     currentSession st2 = Some shown \<and>
     messages shown = messages cur @ [userMessage, errorMessage] \<and>
     role userMessage = Role_user \<and> msg_text userMessage = inputText st \<and>
     role errorMessage = Role_model \<and> msg_text errorMessage = apology \<and>
     (\<forall>m \<in> set (messages shown). isLoading m \<noteq> Some True) \<and>
     find (\<lambda>x. session_id x = session_id cur) (stored_sessions (localStorage st2)) = Some shown \<and>
     \<not> isProcessing st2"
proof -
  from handleSendMessage_send_Awaiting [OF sent] current
  obtain userMessage updatedSession loading where
    um: "userMessage = \<lparr> msg_id = toString (now 0), role = Role_user, msg_text = inputText st,
                     isReport = None, reportData = None, isLoading = None,
                     groundingUrls = None \<rparr>" and
    upd: "updatedSession = cur\<lparr> messages := messages cur @ [userMessage],
        title := (if length (messages cur) \<le> 1
                    then (if length (inputText st) > 30
                          then take 30 (inputText st) @ ''...'' else inputText st)
                    else title cur),
        lastModified := now 1 \<rparr>" and
    ex: "ex = \<lparr> ex_currentSession = cur, ex_userMessage = userMessage,
            ex_updatedMessages = messages cur @ [userMessage],
            ex_updatedSession = updatedSession \<rparr>" and
    st1: "st1 = st\<lparr> localStorage := Sessions (upsert updatedSession (stored_sessions (localStorage st))),
               inputText := [], isProcessing := True,
               sessions := replace_session cur
                  (updatedSession\<lparr> messages := messages cur @ [userMessage, loading] \<rparr>)
                  (replace_session cur updatedSession (sessions st)) \<rparr>"
    by auto
  define errorMessage where "errorMessage =
     \<lparr> msg_id = toString (now 3), role = Role_model, msg_text = apology,
       isReport = None, reportData = None, isLoading = None, groundingUrls = None \<rparr>"
  define errorSession where "errorSession =
     updatedSession\<lparr> messages := messages cur @ [userMessage, errorMessage],
                     lastModified := now 4 \<rparr>"
  define st2 where "st2 = st1\<lparr> sessions := replace_session cur errorSession (sessions st1),
       localStorage := Sessions (upsert errorSession (stored_sessions (localStorage st1))),
       isProcessing := False \<rparr>"
  have same_id: "session_id updatedSession = session_id cur" "session_id errorSession = session_id cur"
    by (simp_all add: upd errorSession_def)
  have "readable (localStorage st1)"
    by (simp add: st1 readable_def)
  from handleSendMessage_rejected_readable [OF this, of "now 3" "now 4" ex]
  have rej: "handleSendMessage_rejected (now 3) (now 4) ex st1 = Returned st2"
    by (simp add: ex st2_def errorSession_def errorMessage_def)
  have "sendMessageToGemini JSON_parse (channel (msg_text (ex_userMessage ex))) = Inl e"
    by (simp add: ex um rejects sendMessageToGemini_def)
  then have run: "handleSendMessage JSON_parse channel now st = Returned st2"
    unfolding handleSendMessage_def sent by (simp add: rej)
  from currentSession_find [OF current]
  have cid: "currentSessionId st = Some (session_id cur)"
    and found: "find (\<lambda>s. session_id s = session_id cur) (sessions st) = Some cur"
    by simp_all
  have "sessions st2 = replace_session cur errorSession (sessions st)"
    by (simp add: st2_def st1 replace_session_twice same_id)
  moreover have "find (\<lambda>s. session_id s = session_id cur)
      (replace_session cur errorSession (sessions st)) = Some errorSession"
    using found by (rule find_replace_session) (simp add: same_id)
  ultimately have shown: "currentSession st2 = Some errorSession"
    by (simp add: currentSession_def st2_def st1 cid)
  have msgs: "messages errorSession = messages cur @ [userMessage, errorMessage]"
    by (simp add: errorSession_def)
  have no_loading: "\<forall>m \<in> set (messages errorSession). isLoading m \<noteq> Some True"
    using clean by (simp add: msgs um errorMessage_def)
  have stored: "find (\<lambda>x. session_id x = session_id cur) (stored_sessions (localStorage st2)) =
      Some errorSession"
    using find_upsert [of errorSession "stored_sessions (localStorage st1)"]
    by (simp add: st2_def stored_sessions_def same_id)
  have idle: "\<not> isProcessing st2"
    by (simp add: st2_def)
  have "role userMessage = Role_user \<and> msg_text userMessage = inputText st \<and>
     role errorMessage = Role_model \<and> msg_text errorMessage = apology"
    by (simp add: um errorMessage_def)
  with run shown msgs no_loading stored idle show ?thesis
    by blast
qed

theorem rejected_exchange_ends_with_apology_witness:
  "map_option (\<lambda>s. map msg_text (messages s))
     (currentSession (final_state
        (handleSendMessage (\<lambda>x. None) (\<lambda>x. Inl Rejected) (\<lambda>k. 100 + int k)
           (idle_state [welcome_session ''1700000000000'' 5] ''Analyze AAPL'')))) =
   Some [msg_text INITIAL_WELCOME_MSG, ''Analyze AAPL'',
         ''I encountered an error. Please try again.'']"
proof -
  let ?st = "idle_state [welcome_session ''1700000000000'' 5] ''Analyze AAPL''"
  let ?now = "\<lambda>k. 100 + int k"
  let ?channel = "\<lambda>x :: string. Inl Rejected :: js_error + channel_result"
  have "\<exists>st1 ex. handleSendMessage_send (?now 0) (?now 1) (?now 2) ?st = Awaiting st1 ex"
    by (simp add: handleSendMessage_send_def idle_state_def welcome_session_def
        currentSession_def trim_def is_space_def demo_user_def saveChatSession_def Let_def)
  then obtain st1 ex where
    sent: "handleSendMessage_send (?now 0) (?now 1) (?now 2) ?st = Awaiting st1 ex"
    by blast
  have rejects: "?channel (inputText ?st) = Inl Rejected"
    by simp
  have current: "currentSession ?st = Some (welcome_session ''1700000000000'' 5)"
    by (simp add: idle_state_def currentSession_def welcome_session_def)
  have clean: "\<forall>m \<in> set (messages (welcome_session ''1700000000000'' 5)). isLoading m \<noteq> Some True"
    by (simp add: welcome_session_def INITIAL_WELCOME_MSG_def)
  from rejected_exchange_ends_with_apology
    [where now = ?now and channel = ?channel and JSON_parse = "\<lambda>x. None",
      OF sent rejects current clean]
  obtain st2 shown userMessage errorMessage where
    "handleSendMessage (\<lambda>x. None) ?channel ?now ?st = Returned st2"
    "currentSession st2 = Some shown"
    "messages shown = messages (welcome_session ''1700000000000'' 5) @ [userMessage, errorMessage]"
    "msg_text userMessage = inputText ?st" "msg_text errorMessage = apology"
    by blast
  then show ?thesis
    by (simp add: final_state_def welcome_session_def idle_state_def apology_def)
qed

section \<open>Deleting the active session\<close>

lemma js_sort_filter:
  "js_sort newest_first (filter P xs) = filter P (js_sort newest_first xs)"
  by (simp add: js_sort_sort_key filter_sort)






section \<open>Facts about the matcher\<close>

lemma rx_match_Lit_Some:
  "rx_match (Lit l # rs) g s = Some r \<Longrightarrow> \<exists>s'. s = l @ s' \<and> rx_match rs g s' = Some r"
  by (auto simp: prefix_def split: if_splits)

lemma rx_match_Star_Some:
  "rx_match (Star p # rs) g s = Some r \<Longrightarrow> \<exists>w s'. s = w @ s' \<and> rx_match rs g s' = Some r"
proof (induction s)
  case Nil
  then show ?case by simp
next
  case (Cons c cs)
  show ?case
  proof (cases "p c \<and> rx_match (Star p # rs) g cs = Some r")
    case True
    with Cons.IH obtain w s' where "cs = w @ s'" "rx_match rs g s' = Some r"
      by blast
    then have "c # cs = (c # w) @ s'" by simp
    with \<open>rx_match rs g s' = Some r\<close> show ?thesis by blast
  next
    case False
    with Cons.prems have "rx_match rs g (c # cs) = Some r"
      by (auto split: if_splits option.splits)
    then have "c # cs = [] @ (c # cs) \<and> rx_match rs g (c # cs) = Some r" by simp
    then show ?thesis by blast
  qed
qed

lemma rx_match_Lazy_Some:
  "rx_match (Lazy p cap # rs) g s = Some r \<Longrightarrow>
     \<exists>w s' g'. s = w @ s' \<and> rx_match rs g' s' = Some r"
proof (induction s arbitrary: g)
  case Nil
  then show ?case by auto
next
  case (Cons c cs)
  show ?case
  proof (cases "rx_match rs g (c # cs)")
    case (Some m)
    with Cons.prems have "rx_match rs g (c # cs) = Some r" by simp
    then have "c # cs = [] @ (c # cs) \<and> rx_match rs g (c # cs) = Some r" by simp
    then show ?thesis by blast
  next
    case None
    with Cons.prems have "rx_match (Lazy p cap # rs) (if cap then g @ [c] else g) cs = Some r"
      by (auto split: if_splits)
    from Cons.IH [OF this] obtain w s' g' where "cs = w @ s'" "rx_match rs g' s' = Some r"
      by blast
    then have "c # cs = (c # w) @ s' \<and> rx_match rs g' s' = Some r" by simp
    then show ?thesis by blast
  qed
qed

lemma report_rx_match_Some:
  assumes "rx_match report_rx g s = Some (g', rest)"
  shows "\<exists>body. s = fence_open @ body @ fence_close @ rest"
proof -
  from assms obtain s1 where s1: "s = fence_open @ s1"
    and m1: "rx_match [Star is_space, Lazy any_char True, Star is_space, Lit fence_close] g s1 =
      Some (g', rest)"
    unfolding report_rx_def using rx_match_Lit_Some by blast
  from rx_match_Star_Some [OF m1] obtain w1 s2 where s2: "s1 = w1 @ s2"
    and m2: "rx_match [Lazy any_char True, Star is_space, Lit fence_close] g s2 = Some (g', rest)"
    by blast
  from rx_match_Lazy_Some [OF m2] obtain w2 s3 g3 where s3: "s2 = w2 @ s3"
    and m3: "rx_match [Star is_space, Lit fence_close] g3 s3 = Some (g', rest)"
    by blast
  from rx_match_Star_Some [OF m3] obtain w3 s4 where s4: "s3 = w3 @ s4"
    and m4: "rx_match [Lit fence_close] g3 s4 = Some (g', rest)"
    by blast
  from rx_match_Lit_Some [OF m4] have "s4 = fence_close @ rest"
    by auto
  with s1 s2 s3 s4 have "s = fence_open @ (w1 @ w2 @ w3) @ fence_close @ rest"
    by simp
  then show ?thesis by blast
qed

lemma rx_search_Some:
  "rx_search rs pre s = Some m \<Longrightarrow>
     \<exists>g. m_group1 m = g \<and> (\<exists>u. pre @ s = m_before m @ u \<and>
        rx_match rs [] u = Some (g, m_after m) \<and> m_whole m = take (length u - length (m_after m)) u)"
proof (induction s arbitrary: pre)
  case Nil
  then show ?case by (auto split: option.splits)
next
  case (Cons c cs)
  show ?case
  proof (cases "rx_match rs [] (c # cs)")
    case None
    with Cons.prems have "rx_search rs (pre @ [c]) cs = Some m" by simp
    from Cons.IH [OF this] show ?thesis by simp
  next
    case (Some r)
    with Cons.prems show ?thesis by (cases r) auto
  qed
qed

lemma js_match_report_rx_Some:
  "js_match report_rx t = Some m \<Longrightarrow> has_report_fence t"
proof -
  assume "js_match report_rx t = Some m"
  then have "rx_search report_rx [] t = Some m" by (simp add: js_match_def)
  from rx_search_Some [OF this] obtain u where u: "t = m_before m @ u"
    and "rx_match report_rx [] u = Some (m_group1 m, m_after m)"
    by auto
  from report_rx_match_Some [OF this(2)] obtain body where
    "u = fence_open @ body @ fence_close @ m_after m" by blast
  with u show ?thesis
    unfolding has_report_fence_def by blast
qed

section \<open>Responses without a report\<close>

text \<open>
  C9. For every response text that contains no \<^verbatim>\<open>```json_report\<close> fenced block, the
  extractor returns the text as it is and no report data, whatever \<^verbatim>\<open>JSON.parse\<close> does.
\<close>

theorem no_fence_text_unchanged:
  assumes "\<not> has_report_fence t"
  shows "extract_report JSON_parse t = \<lparr> cleanText = t, extracted = None \<rparr>"
proof -
  from assms js_match_report_rx_Some have "js_match report_rx t = None"
    by (cases "js_match report_rx t") auto
  then show ?thesis by (simp add: extract_report_def)
qed

lemma has_report_fence_sublist: "has_report_fence t \<Longrightarrow> sublist fence_open t"
  unfolding has_report_fence_def sublist_def by blast

theorem no_fence_text_unchanged_witness:
  "\<not> has_report_fence ''Which stock would you like me to analyze?'' \<and>
   extract_report (\<lambda>x. None) ''Which stock would you like me to analyze?'' =
     \<lparr> cleanText = ''Which stock would you like me to analyze?'', extracted = None \<rparr>"
proof -
  have "\<not> sublist fence_open ''Which stock would you like me to analyze?''"
    by (simp add: fence_open_def sublist_Cons_right)
  with has_report_fence_sublist
  have h: "\<not> has_report_fence ''Which stock would you like me to analyze?''"
    by blast
  from h no_fence_text_unchanged [OF h] show ?thesis by simp
qed

text \<open>A literal that starts before the end of \<open>a\<close> and fits into \<open>a @ l @ x\<close>.\<close>

lemma prefix_overlap:
  assumes "prefix l (a @ l @ x)" and "a \<noteq> []"
  shows "prefix l (a @ butlast l)"
proof (cases "l = []")
  case True
  then show ?thesis by simp
next
  case False
  then have l: "l = butlast l @ [last l]" by simp
  from assms(2) False have len: "length l \<le> length (a @ butlast l)"
    by (cases a) simp_all
  from assms(1) have "prefix l ((a @ butlast l) @ ([last l] @ x))"
    using l by (metis append.assoc)
  with len show ?thesis
    by (metis prefix_length_prefix prefix_append append_prefixD prefix_order.order_refl)
qed

section \<open>The first fence of a response\<close>

lemma fence_close_head: "fence_close = CHR 0x60 # ''``''" "\<not> is_space (CHR 0x60)"
  by (simp_all add: fence_close_def is_space_def)

text \<open>White space, then a literal that does not start with white space: no backtracking.\<close>

lemma rx_match_Star_Lit:
  assumes "l \<noteq> []" and "\<not> p (hd l)"
  shows "rx_match [Star p, Lit l] g s =
     (if prefix l (dropWhile p s) then Some (g, drop (length l) (dropWhile p s)) else None)"
proof (induction s)
  case Nil
  with assms show ?case by simp
next
  case (Cons c cs)
  show ?case
  proof (cases "p c")
    case True
    with assms have "\<not> prefix l (c # cs)"
      by (cases l) auto
    with True Cons.IH show ?thesis by simp
  next
    case False
    then show ?thesis by simp
  qed
qed

lemma rx_match_Star_commit:
  "rx_match rs g (dropWhile p s) = Some r \<Longrightarrow> rx_match (Star p # rs) g s = Some r"
proof (induction s)
  case Nil
  then show ?case by simp
next
  case (Cons c cs)
  then show ?case by (cases "p c") simp_all
qed

lemma rstrip_Cons:
  assumes "\<not> (\<forall>x \<in> set (c # m). is_space x)"
  shows "rstrip (c # m) = c # rstrip m"
proof (cases "\<forall>x \<in> set m. is_space x")
  case True
  with assms have "\<not> is_space c" by simp
  with True show ?thesis
    by (simp add: rstrip_def dropWhile_append)
next
  case False
  then show ?thesis
    by (simp add: rstrip_def dropWhile_append)
qed

lemma rstrip_spaces: "\<forall>x \<in> set m. is_space x \<Longrightarrow> rstrip m = []"
  by (simp add: rstrip_def)

lemma no_close_tail:
  "\<not> sublist fence_close ((c # m) @ butlast fence_close) \<Longrightarrow>
     \<not> sublist fence_close (m @ butlast fence_close)"
  by (simp add: sublist_Cons_right)

lemma no_close_here:
  assumes "\<not> sublist fence_close (m @ butlast fence_close)" and "m \<noteq> []"
  shows "\<not> prefix fence_close (m @ fence_close @ post)"
proof
  assume "prefix fence_close (m @ fence_close @ post)"
  from prefix_overlap [OF this assms(2)] have "prefix fence_close (m @ butlast fence_close)" .
  then have "sublist fence_close (m @ butlast fence_close)"
    by (rule prefix_imp_sublist)
  with assms(1) show False by simp
qed

lemma no_close_dropWhile:
  assumes "\<not> sublist fence_close (m @ butlast fence_close)"
  shows "\<not> sublist fence_close (dropWhile p m @ butlast fence_close)"
proof
  assume "sublist fence_close (dropWhile p m @ butlast fence_close)"
  moreover have "suffix (dropWhile p m @ butlast fence_close) (m @ butlast fence_close)"
    by (simp add: suffix_dropWhile)
  ultimately have "sublist fence_close (m @ butlast fence_close)"
    by (meson sublist_order.order_trans suffix_imp_sublist)
  with assms show False by simp
qed

lemma dropWhile_space_close:
  "dropWhile is_space (m @ fence_close @ post) = dropWhile is_space m @ fence_close @ post"
  by (simp add: dropWhile_append fence_close_head)

lemma rx_match_lazy_body:
  assumes "\<not> sublist fence_close (m @ butlast fence_close)"
  shows "rx_match [Lazy any_char True, Star is_space, Lit fence_close] g (m @ fence_close @ post) =
     Some (g @ rstrip m, post)"
  using assms
proof (induction m arbitrary: g)
  case Nil
  have "rx_match [Star is_space, Lit fence_close] g (fence_close @ post) = Some (g, post)"
    by (simp add: rx_match_Star_Lit fence_close_head)
  then show ?case
    by (simp add: fence_close_head rstrip_def)
next
  case (Cons c m)
  have tail: "rx_match [Star is_space, Lit fence_close] g ((c # m) @ fence_close @ post) =
      (if prefix fence_close (dropWhile is_space (c # m) @ fence_close @ post)
       then Some (g, drop (length fence_close) (dropWhile is_space (c # m) @ fence_close @ post))
       else None)"
    using rx_match_Star_Lit [of fence_close is_space g "(c # m) @ fence_close @ post"]
    by (simp only: dropWhile_space_close) (simp add: fence_close_head)
  show ?case
  proof (cases "\<forall>x \<in> set (c # m). is_space x")
    case True
    then have "dropWhile is_space (c # m) = []" by simp
    with tail have "rx_match [Star is_space, Lit fence_close] g ((c # m) @ fence_close @ post) =
        Some (g, post)"
      by simp
    with True show ?thesis
      by (simp add: rstrip_spaces)
  next
    case False
    then have "dropWhile is_space (c # m) \<noteq> []"
      by (metis dropWhile_eq_Nil_conv)
    with no_close_here [OF no_close_dropWhile [OF Cons.prems]]
    have "\<not> prefix fence_close (dropWhile is_space (c # m) @ fence_close @ post)"
      by blast
    with tail have "rx_match [Star is_space, Lit fence_close] g ((c # m) @ fence_close @ post) = None"
      by simp
    moreover from Cons.IH [OF no_close_tail [OF Cons.prems]]
    have "rx_match [Lazy any_char True, Star is_space, Lit fence_close] (g @ [c])
        (m @ fence_close @ post) = Some ((g @ [c]) @ rstrip m, post)" .
    moreover have "any_char c" by (simp add: any_char_def)
    ultimately show ?thesis
      using False by (simp add: rstrip_Cons)
  qed
qed

lemma report_rx_match_fence:
  assumes "\<not> sublist fence_close (body @ butlast fence_close)"
  shows "rx_match report_rx [] (fence_open @ body @ fence_close @ post) = Some (trim body, post)"
proof -
  have "rx_match [Lazy any_char True, Star is_space, Lit fence_close] []
      (dropWhile is_space body @ fence_close @ post) = Some ([] @ rstrip (dropWhile is_space body), post)"
    using no_close_dropWhile [OF assms] by (rule rx_match_lazy_body)
  then have "rx_match [Lazy any_char True, Star is_space, Lit fence_close] []
      (dropWhile is_space (body @ fence_close @ post)) = Some (trim body, post)"
    by (simp add: dropWhile_space_close rstrip_def trim_def)
  then have "rx_match [Star is_space, Lazy any_char True, Star is_space, Lit fence_close] []
      (body @ fence_close @ post) = Some (trim body, post)"
    by (rule rx_match_Star_commit)
  then show ?thesis
    by (simp add: report_rx_def)
qed



text \<open>The search passes over every position at which the opening marker does not start.\<close>

lemma rx_search_skip:
  assumes "\<not> sublist l (pre @ butlast l)" and "l \<noteq> []"
  shows "rx_search (Lit l # rs) acc (pre @ l @ x) = rx_search (Lit l # rs) (acc @ pre) (l @ x)"
  using assms(1)
proof (induction pre arbitrary: acc)
  case Nil
  then show ?case by simp
next
  case (Cons c pre)
  have "\<not> prefix l ((c # pre) @ l @ x)"
  proof
    assume "prefix l ((c # pre) @ l @ x)"
    then have "prefix l ((c # pre) @ butlast l)"
      by (rule prefix_overlap) simp
    then have "sublist l ((c # pre) @ butlast l)"
      by (rule prefix_imp_sublist)
    with Cons.prems show False by simp
  qed
  then have "rx_match (Lit l # rs) [] (c # pre @ l @ x) = None"
    by simp
  moreover from Cons.prems have "\<not> sublist l (pre @ butlast l)"
    by (simp add: sublist_Cons_right)
  from Cons.IH [OF this, of "acc @ [c]"]
  have "rx_search (Lit l # rs) (acc @ [c]) (pre @ l @ x) =
      rx_search (Lit l # rs) (acc @ c # pre) (l @ x)"
    by simp
  ultimately show ?case by simp
qed

lemma rx_search_here:
  assumes "rx_match rs [] s = Some (g, rest)" and "s \<noteq> []"
  shows "rx_search rs acc s =
     Some \<lparr> m_before = acc, m_whole = take (length s - length rest) s, m_group1 = g,
            m_after = rest \<rparr>"
  using assms by (cases s) simp_all

lemma fence_open_nonempty: "fence_open \<noteq> []"
  by (simp add: fence_open_def)

lemma js_match_report_rx_fence:
  assumes "report_fence t pre body post"
  shows "js_match report_rx t =
     Some \<lparr> m_before = pre, m_whole = fence_open @ body @ fence_close, m_group1 = trim body,
            m_after = post \<rparr>"
proof -
  from assms have t: "t = pre @ fence_open @ body @ fence_close @ post"
    and first_open: "\<not> sublist fence_open (pre @ butlast fence_open)"
    and first_close: "\<not> sublist fence_close (body @ butlast fence_close)"
    by (simp_all add: report_fence_def)
  let ?s = "fence_open @ body @ fence_close @ post"
  have "rx_search report_rx [] t = rx_search report_rx ([] @ pre) ?s"
    unfolding report_rx_def t
    using first_open fence_open_nonempty by (rule rx_search_skip)
  also have "\<dots> = Some \<lparr> m_before = pre, m_whole = take (length ?s - length post) ?s,
       m_group1 = trim body, m_after = post \<rparr>"
    using rx_search_here [OF report_rx_match_fence [OF first_close, of post], of pre]
    by (simp add: fence_open_nonempty)
  finally show ?thesis
    by (simp add: js_match_def)
qed


text \<open>
  Every response that contains a report fence has a first one, so the two theorems of
  the next section speak about every such response.
\<close>

lemma first_occurrence:
  assumes "sublist l t" and "l \<noteq> []"
  shows "\<exists>pre x. t = pre @ l @ x \<and> \<not> sublist l (pre @ butlast l)"
  using assms(1)
proof (induction t)
  case Nil
  with assms(2) show ?case by simp
next
  case (Cons c t)
  show ?case
  proof (cases "prefix l (c # t)")
    case True
    then obtain x where "c # t = [] @ l @ x"
      by (auto simp: prefix_def)
    moreover have "\<not> sublist l ([] @ butlast l)"
    proof
      assume "sublist l ([] @ butlast l)"
      then obtain ps ss where "butlast l = ps @ l @ ss"
        by (auto simp: sublist_def)
      then have "length (butlast l) = length (ps @ l @ ss)"
        by simp
      then have "length l \<le> length (butlast l)"
        by simp
      moreover from assms(2) have "length (butlast l) < length l"
        by simp
      ultimately show False by linarith
    qed
    ultimately show ?thesis by blast
  next
    case False
    with Cons.prems have "sublist l t"
      by (simp add: sublist_Cons_right)
    from Cons.IH [OF this] obtain pre x where t: "t = pre @ l @ x"
      and first: "\<not> sublist l (pre @ butlast l)"
      by blast
    have "\<not> prefix l (c # pre @ butlast l)"
    proof
      assume "prefix l (c # pre @ butlast l)"
      moreover have "prefix (c # pre @ butlast l) (c # pre @ l @ x)"
        using assms(2) by (metis append_butlast_last_id append.assoc prefixI prefix_code(3) same_prefix_prefix Cons_prefix_Cons)
      ultimately have "prefix l (c # t)"
        unfolding t by (rule prefix_order.trans)
      with False show False by simp
    qed
    with first have "\<not> sublist l ((c # pre) @ butlast l)"
      by (simp add: sublist_Cons_right)
    moreover have "c # t = (c # pre) @ l @ x"
      by (simp add: t)
    ultimately show ?thesis by blast
  qed
qed

lemma fence_close_nonempty: "fence_close \<noteq> []"
  by (simp add: fence_close_def)

lemma every_fence_has_a_first:
  assumes "has_report_fence t"
  shows "\<exists>pre body post. report_fence t pre body post"
proof -
  from assms obtain a b c where t: "t = a @ fence_open @ b @ fence_close @ c"
    unfolding has_report_fence_def by blast
  then have "sublist fence_open t"
    by (auto simp: sublist_def)
  from first_occurrence [OF this fence_open_nonempty] obtain pre x where
    px: "t = pre @ fence_open @ x" and first_open: "\<not> sublist fence_open (pre @ butlast fence_open)"
    by blast
  have le: "length pre \<le> length a"
  proof (rule ccontr)
    assume "\<not> length pre \<le> length a"
    then have len: "length (a @ fence_open) \<le> length (pre @ butlast fence_open)"
      by simp
    have "prefix (a @ fence_open) t"
      unfolding t by (metis append.assoc prefixI)
    moreover have "prefix (pre @ butlast fence_open) t"
      unfolding px using fence_open_nonempty
      by (metis append_butlast_last_id append.assoc prefixI)
    ultimately have "prefix (a @ fence_open) (pre @ butlast fence_open)"
      using len by (rule prefix_length_prefix)
    then have "sublist fence_open (pre @ butlast fence_open)"
      by (auto simp: prefix_def sublist_def)
    with first_open show False by simp
  qed
  have "prefix pre t"
    unfolding px by simp
  moreover have "prefix a t"
    unfolding t by simp
  ultimately have "prefix pre a"
    using le by (rule prefix_length_prefix)
  then obtain d where a: "a = pre @ d"
    by (auto simp: prefix_def)
  from t px a have "fence_open @ x = d @ fence_open @ b @ fence_close @ c"
    by simp
  then have "x = drop (length fence_open) (d @ fence_open @ b @ fence_close @ c)"
    by (metis append_eq_conv_conj)
  also have "\<dots> = drop (length fence_open) (d @ fence_open) @ b @ fence_close @ c"
    by simp
  finally have "x = (drop (length fence_open) (d @ fence_open) @ b) @ fence_close @ c"
    by simp
  then have "sublist fence_close x"
    unfolding sublist_def by blast
  from first_occurrence [OF this fence_close_nonempty] obtain body post where
    "x = body @ fence_close @ post" "\<not> sublist fence_close (body @ butlast fence_close)"
    by blast
  with px first_open have "report_fence t pre body post"
    by (simp add: report_fence_def)
  then show ?thesis by blast
qed

section \<open>Responses with a report fence\<close>

text \<open>
  C2. For every response text with a report fence whose inner content \<^verbatim>\<open>JSON.parse\<close>
  rejects, the extractor returns the original text, character for character, and no
  report data. The extractor is a total function: the exception of the parser is the
  only one of the block, and the \<^verbatim>\<open>catch\<close> clause swallows it.
\<close>

theorem malformed_fence_text_untouched:
  assumes "report_fence t pre body post" and "JSON_parse (inner_content body) = None"
  shows "extract_report JSON_parse t = \<lparr> cleanText = t, extracted = None \<rparr>"
  using assms(2)
  by (simp add: extract_report_def js_match_report_rx_fence [OF assms(1)] inner_content_def)


text \<open>
  Two instances of C2: a body between spaces, and one between no-break spaces, which
  the inner content leaves out as well.
\<close>

theorem malformed_fence_text_untouched_witness:
  "report_fence ''Here it is: ```json_report {oops ``` Done.''
     ''Here it is: '' '' {oops '' '' Done.'' \<and>
   sample_parse (inner_content '' {oops '') = None \<and>
   extract_report sample_parse ''Here it is: ```json_report {oops ``` Done.'' =
     \<lparr> cleanText = ''Here it is: ```json_report {oops ``` Done.'', extracted = None \<rparr> \<and>
   inner_content (CHR 0xA0 # ''[1,'' @ [CHR 0xA0]) = ''[1,'' \<and>
   extract_report sample_parse (''```json_report'' @ CHR 0xA0 # ''[1,'' @ CHR 0xA0 # ''```'') =
     \<lparr> cleanText = ''```json_report'' @ CHR 0xA0 # ''[1,'' @ CHR 0xA0 # ''```'',
       extracted = None \<rparr>"
proof -
  have f: "report_fence ''Here it is: ```json_report {oops ``` Done.''
     ''Here it is: '' '' {oops '' '' Done.''"
    by (simp add: report_fence_def fence_open_def fence_close_def sublist_Cons_right)
  have p: "sample_parse (inner_content '' {oops '') = None"
    by (simp add: sample_parse_def inner_content_def trim_def is_space_def)
  have g: "report_fence (''```json_report'' @ CHR 0xA0 # ''[1,'' @ CHR 0xA0 # ''```'')
     [] (CHR 0xA0 # ''[1,'' @ [CHR 0xA0]) []"
    by (simp add: report_fence_def fence_open_def fence_close_def sublist_Cons_right)
  have i: "inner_content (CHR 0xA0 # ''[1,'' @ [CHR 0xA0]) = ''[1,''"
    by (simp add: inner_content_def trim_def is_space_def)
  have q: "sample_parse (inner_content (CHR 0xA0 # ''[1,'' @ [CHR 0xA0])) = None"
    using i by (simp add: sample_parse_def)
  from f p i malformed_fence_text_untouched [where JSON_parse = sample_parse, OF f p]
    malformed_fence_text_untouched [where JSON_parse = sample_parse, OF g q]
  show ?thesis by simp
qed


section \<open>The number pattern\<close>

lemma rx_match_Star_end: "rx_match [Star p] g s = Some (g, dropWhile p s)"
  by (rule rx_match_Star_commit) simp

lemma rx_match_Plus_end:
  "rx_match [Plus p] g s =
     (if takeWhile p s = [] then None else Some (g, dropWhile p s))"
  by (cases s) (simp_all add: rx_match_Star_end)

lemma rx_match_fraction:
  "rx_match [Opt [Lit ''.'', Plus is_digit]] g s =
     Some (g, if prefix ''.'' s \<and> takeWhile is_digit (tl s) \<noteq> []
              then dropWhile is_digit (tl s) else s)"
proof (cases "prefix ''.'' s")
  case True
  then obtain r where s: "s = CHR ''.'' # r"
    by (cases s) auto
  show ?thesis
    by (simp add: s rx_match_Plus_end del: rx_match.simps(5,6))
next
  case False
  then show ?thesis by simp
qed

lemma rx_match_unsigned:
  "rx_match [Plus is_digit, Opt [Lit ''.'', Plus is_digit]] g s =
     (if takeWhile is_digit s = [] then None
      else Some (g, if prefix ''.'' (dropWhile is_digit s) \<and>
                       takeWhile is_digit (tl (dropWhile is_digit s)) \<noteq> []
                    then dropWhile is_digit (tl (dropWhile is_digit s))
                    else dropWhile is_digit s))"
proof (cases s)
  case Nil
  then show ?thesis by simp
next
  case (Cons c cs)
  show ?thesis
  proof (cases "is_digit c")
    case True
    have "rx_match [Star is_digit, Opt [Lit ''.'', Plus is_digit]] g cs =
        rx_match [Opt [Lit ''.'', Plus is_digit]] g (dropWhile is_digit cs)"
      using rx_match_Star_commit [of "[Opt [Lit ''.'', Plus is_digit]]" g is_digit cs]
      by (simp only: rx_match_fraction)
    with True show ?thesis
      by (simp add: Cons rx_match_fraction del: rx_match.simps(9))
  next
    case False
    then show ?thesis by (simp add: Cons)
  qed
qed

lemma minus_not_digit: "\<not> is_digit (CHR ''-'')"
  by (simp add: is_digit_def)

lemma unsigned_prefix_match:
  "rx_match [Plus is_digit, Opt [Lit ''.'', Plus is_digit]] g s =
     map_option (\<lambda>n. (g, drop (length n) s)) (unsigned_prefix s)"
proof -
  let ?whole = "takeWhile is_digit s" and ?after = "dropWhile is_digit s"
  have split: "s = ?whole @ ?after" by simp
  have d: "drop (length ?whole) s = ?after"
    by (metis append_eq_conv_conj split)
  show ?thesis
  proof (cases "prefix ''.'' ?after \<and> takeWhile is_digit (tl ?after) \<noteq> []")
    case True
    then obtain r where after: "?after = CHR ''.'' # r"
      by (cases ?after) auto
    have "s = ?whole @ ''.'' @ takeWhile is_digit r @ dropWhile is_digit r"
      using split after by simp
    then have "drop (length (?whole @ ''.'' @ takeWhile is_digit r)) s = dropWhile is_digit r"
      by (metis append.assoc append_eq_conv_conj)
    with True after show ?thesis
      by (simp add: rx_match_unsigned unsigned_prefix_def Let_def del: rx_match.simps)
  next
    case False
    with d show ?thesis
      by (auto simp add: rx_match_unsigned unsigned_prefix_def Let_def simp del: rx_match.simps)
  qed
qed

lemma unsigned_prefix_minus: "unsigned_prefix (CHR ''-'' # r) = None"
  by (simp add: unsigned_prefix_def minus_not_digit)

lemma number_rx_match:
  "rx_match number_rx [] s = map_option (\<lambda>n. ([], drop (length n) s)) (numeric_prefix s)"
proof (cases "prefix ''-'' s")
  case True
  then obtain r where s: "s = CHR ''-'' # r"
    by (cases s) auto
  have "rx_match number_rx [] (CHR ''-'' # r) =
      (case rx_match [Plus is_digit, Opt [Lit ''.'', Plus is_digit]] [] r of
         Some m \<Rightarrow> Some m
       | None \<Rightarrow> rx_match [Plus is_digit, Opt [Lit ''.'', Plus is_digit]] [] (CHR ''-'' # r))"
    by (simp add: number_rx_def)
  also have "\<dots> = map_option (\<lambda>n. ([], drop (length n) r)) (unsigned_prefix r)"
    by (cases "unsigned_prefix r") (simp_all add: unsigned_prefix_match unsigned_prefix_minus del: rx_match.simps)
  also have "\<dots> = map_option (\<lambda>n. ([], drop (length n) (CHR ''-'' # r))) (numeric_prefix (CHR ''-'' # r))"
    by (simp add: numeric_prefix_def option.map_comp comp_def)
  finally have "rx_match number_rx [] (CHR ''-'' # r) =
      map_option (\<lambda>n. ([], drop (length n) (CHR ''-'' # r))) (numeric_prefix (CHR ''-'' # r))" .
  then show ?thesis by (simp only: s)
next
  case False
  then have "rx_match [Lit ''-'', Plus is_digit, Opt [Lit ''.'', Plus is_digit]] [] s = None"
    by simp
  then have "rx_match number_rx [] s =
      rx_match [Plus is_digit, Opt [Lit ''.'', Plus is_digit]] [] s"
    by (simp add: number_rx_def)
  with False show ?thesis
    by (simp add: unsigned_prefix_match numeric_prefix_def)
qed

lemma unsigned_prefix_is_prefix: "unsigned_prefix s = Some n \<Longrightarrow> prefix n s"
proof -
  assume a: "unsigned_prefix s = Some n"
  let ?whole = "takeWhile is_digit s" and ?after = "dropWhile is_digit s"
  have split: "s = ?whole @ ?after" by simp
  show ?thesis
  proof (cases "prefix ''.'' ?after \<and> takeWhile is_digit (tl ?after) \<noteq> []")
    case True
    then obtain r where after: "?after = CHR ''.'' # r"
      by (cases ?after) auto
    have "s = ?whole @ ''.'' @ takeWhile is_digit r @ dropWhile is_digit r"
      using split after by simp
    then have "prefix (?whole @ ''.'' @ takeWhile is_digit r) s"
      by (metis append.assoc prefixI)
    with a True after show ?thesis
      by (auto simp: unsigned_prefix_def Let_def split: if_splits)
  next
    case False
    have "prefix ?whole s"
      by (metis split prefixI)
    with a False show ?thesis
      by (auto simp: unsigned_prefix_def Let_def split: if_splits)
  qed
qed

lemma numeric_prefix_is_prefix: "numeric_prefix s = Some n \<Longrightarrow> prefix n s"
  by (cases s) (auto simp: numeric_prefix_def dest: unsigned_prefix_is_prefix split: if_splits)

lemma number_rx_search:
  "map_option m_whole (rx_search number_rx acc s) = first_numeric_substring s"
proof (induction s arbitrary: acc)
  case Nil
  have "numeric_prefix [] = None"
    by (simp add: numeric_prefix_def unsigned_prefix_def)
  then show ?case
    by (simp add: number_rx_match)
next
  case (Cons c cs)
  show ?case
  proof (cases "numeric_prefix (c # cs)")
    case None
    with Cons.IH [of "acc @ [c]"] show ?thesis
      by (simp add: number_rx_match)
  next
    case (Some n)
    from numeric_prefix_is_prefix [OF this] obtain r where r: "c # cs = n @ r"
      by (auto simp: prefix_def)
    then have "drop (length n) (c # cs) = r"
      by (metis append_eq_conv_conj)
    moreover from r have "take (length (c # cs) - length r) (c # cs) = n"
      by (metis add_diff_cancel_right' append_eq_conv_conj length_append)
    ultimately show ?thesis
      using Some by (simp add: number_rx_match del: drop_Suc_Cons take_Suc_Cons)
  qed
qed

lemma parseValue_Str:
  "parseValue (Str s) =
     (case first_numeric_substring (filter (\<lambda>c. c \<noteq> CHR '','') s) of
        None \<Rightarrow> Finite 0
      | Some n \<Rightarrow> parseFloat n)"
proof -
  let ?clean = "filter (\<lambda>c. c \<noteq> CHR '','') s"
  from number_rx_search [of "[]" ?clean]
  have "first_numeric_substring ?clean = map_option m_whole (js_match number_rx ?clean)"
    by (simp add: js_match_def)
  then show ?thesis
    by (cases "js_match number_rx ?clean") (simp_all add: parseValue_def)
qed

lemma unsigned_prefix_starts_with_digit:
  assumes "unsigned_prefix s = Some n"
  shows "\<exists>d r. n = d # r \<and> is_digit d"
proof -
  from assms have whole: "takeWhile is_digit s \<noteq> []"
    by (auto simp: unsigned_prefix_def Let_def split: if_splits)
  then obtain d w where dw: "takeWhile is_digit s = d # w"
    by (cases "takeWhile is_digit s") auto
  then have "d \<in> set (takeWhile is_digit s)" by simp
  then have "is_digit d" by (rule set_takeWhileD [THEN conjunct2])
  with assms dw show ?thesis
    by (auto simp: unsigned_prefix_def Let_def split: if_splits)
qed

lemma parseFloat_digit_first: "is_digit d \<Longrightarrow> parseFloat (d # r) \<noteq> NaN"
proof -
  assume d: "is_digit d"
  then have "d \<noteq> CHR ''-''" "d \<noteq> CHR ''+''"
    by (auto simp: is_digit_def)
  with d show ?thesis
    by (simp add: parseFloat_def Let_def)
qed

lemma parseFloat_minus_digit: "is_digit d \<Longrightarrow> parseFloat (CHR ''-'' # d # r) \<noteq> NaN"
  by (simp add: parseFloat_def Let_def)

lemma parseFloat_numeric_prefix:
  assumes "numeric_prefix s = Some n"
  shows "parseFloat n \<noteq> NaN"
proof (cases "prefix ''-'' s")
  case True
  with assms obtain u where "unsigned_prefix (tl s) = Some u" and n: "n = CHR ''-'' # u"
    by (auto simp: numeric_prefix_def)
  from unsigned_prefix_starts_with_digit [OF this(1)] n show ?thesis
    by (auto simp: parseFloat_minus_digit)
next
  case False
  with assms have "unsigned_prefix s = Some n"
    by (simp add: numeric_prefix_def)
  from unsigned_prefix_starts_with_digit [OF this] show ?thesis
    by (auto simp: parseFloat_digit_first)
qed

lemma first_numeric_substring_Some:
  "first_numeric_substring s = Some n \<Longrightarrow> parseFloat n \<noteq> NaN"
proof (induction s)
  case Nil
  then show ?case by simp
next
  case (Cons c cs)
  then show ?case
    by (cases "numeric_prefix (c # cs)") (auto simp: parseFloat_numeric_prefix)
qed

lemma numeric_prefix_digit: "is_digit c \<Longrightarrow> numeric_prefix (c # cs) \<noteq> None"
proof -
  assume d: "is_digit c"
  then have "c \<noteq> CHR ''-''" by (auto simp: is_digit_def)
  with d show ?thesis
    by (simp add: numeric_prefix_def unsigned_prefix_def Let_def)
qed

lemma numeric_prefix_no_digit: "\<forall>c \<in> set s. \<not> is_digit c \<Longrightarrow> numeric_prefix s = None"
proof -
  assume a: "\<forall>c \<in> set s. \<not> is_digit c"
  have "\<And>u. \<forall>c \<in> set u. \<not> is_digit c \<Longrightarrow> takeWhile is_digit u = []"
  proof -
    fix u :: string
    assume "\<forall>c \<in> set u. \<not> is_digit c"
    then show "takeWhile is_digit u = []" by (cases u) simp_all
  qed
  then have "\<And>u. \<forall>c \<in> set u. \<not> is_digit c \<Longrightarrow> unsigned_prefix u = None"
    by (simp add: unsigned_prefix_def Let_def)
  with a show ?thesis
    by (cases s) (auto simp: numeric_prefix_def)
qed

lemma first_numeric_substring_None:
  "first_numeric_substring s = None \<longleftrightarrow> (\<forall>c \<in> set s. \<not> is_digit c)"
proof (induction s)
  case Nil
  then show ?case by simp
next
  case (Cons c cs)
  show ?case
  proof (cases "numeric_prefix (c # cs)")
    case None
    with numeric_prefix_digit [of c cs] have "\<not> is_digit c" by blast
    with None Cons.IH show ?thesis by simp
  next
    case (Some n)
    with numeric_prefix_no_digit [of "c # cs"] have "\<not> (\<forall>x \<in> set (c # cs). \<not> is_digit x)"
      by auto
    with Some show ?thesis by simp
  qed
qed

section \<open>Parsing a metric value\<close>

text \<open>
  C10. \<^verbatim>\<open>parseValue\<close> is a total function. It returns a number as it is. For a string it
  never returns \<^verbatim>\<open>NaN\<close>: it returns what \<^verbatim>\<open>parseFloat\<close> makes of the first numeric
  substring of the string without its commas, and 0 when there is none, as in a string
  without a digit. The four examples have the values 150.2, 25.4, 12 and 0.
\<close>

theorem parseValue_total_first_number:
  "parseValue (Num x) = x \<and>
   parseValue (Str s) \<noteq> NaN \<and>
   parseValue (Str s) =
     (case first_numeric_substring (filter (\<lambda>c. c \<noteq> CHR '','') s) of
        None \<Rightarrow> Finite 0
      | Some n \<Rightarrow> parseFloat n) \<and>
   ((\<forall>c \<in> set s. \<not> is_digit c) \<longrightarrow> parseValue (Str s) = Finite 0) \<and>
   parseValue (Str ''$150.20'') = Finite (1502 / 10) \<and>
   parseValue (Str ''25.4x'') = Finite (254 / 10) \<and>
   parseValue (Str ''12%'') = Finite 12 \<and>
   parseValue (Str ''N/A'') = Finite 0"
proof -
  let ?clean = "filter (\<lambda>c. c \<noteq> CHR '','') s"
  have number: "parseValue (Num x) = x"
    by (simp add: parseValue_def)
  have finite: "parseValue (Str s) \<noteq> NaN"
    by (cases "first_numeric_substring ?clean")
      (simp_all add: parseValue_Str first_numeric_substring_Some)
  have none: "(\<forall>c \<in> set s. \<not> is_digit c) \<longrightarrow> parseValue (Str s) = Finite 0"
  proof
    assume "\<forall>c \<in> set s. \<not> is_digit c"
    then have "\<forall>c \<in> set ?clean. \<not> is_digit c" by simp
    then have "first_numeric_substring ?clean = None"
      by (simp only: first_numeric_substring_None)
    then show "parseValue (Str s) = Finite 0"
      by (simp add: parseValue_Str)
  qed
  have examples: "parseValue (Str ''$150.20'') = Finite (1502 / 10)"
    "parseValue (Str ''25.4x'') = Finite (254 / 10)"
    "parseValue (Str ''12%'') = Finite 12"
    "parseValue (Str ''N/A'') = Finite 0"
    by (simp_all add: parseValue_Str numeric_prefix_def unsigned_prefix_def is_digit_def
        parseFloat_def decimal_def digit_value_def Let_def)
  from number finite none examples parseValue_Str [of s] show ?thesis
    by blast
qed

theorem parseValue_total_first_number_witness:
  "parseValue (Num (Finite 3)) = Finite 3 \<and>
   first_numeric_substring (filter (\<lambda>c. c \<noteq> CHR '','') ''Industry Avg -1,228.50 (est.)'') =
     Some ''-1228.50'' \<and>
   parseValue (Str ''Industry Avg -1,228.50 (est.)'') = Finite (- 2457 / 2)"
  using parseValue_total_first_number [of "Finite 3" "''Industry Avg -1,228.50 (est.)''"]
  by (simp add: numeric_prefix_def unsigned_prefix_def is_digit_def
      parseFloat_def decimal_def digit_value_def Let_def)

end
